theory Spec2Isabelle
  imports Main "HOL-Library.Sublist"
begin

section \<open>Strings and the library calls the runners make\<close>

text \<open>
  A Go \<open>string\<close> is a sequence of bytes and is modelled as a \<open>string\<close> (a list of
  8-bit characters). \<open>strings.HasPrefix\<close> and \<open>strings.HasSuffix\<close> are \<open>prefix\<close>
  and \<open>suffix\<close> of the list library.
\<close>

definition HasPrefix :: "string \<Rightarrow> string \<Rightarrow> bool" where
  "HasPrefix s p = prefix p s"

definition HasSuffix :: "string \<Rightarrow> string \<Rightarrow> bool" where
  "HasSuffix s p = suffix p s"

text \<open>
  \<open>strings.Split(s, " ")\<close>: the pieces of \<open>s\<close> between the occurrences of the separator,
  one more piece than there are separators (so the empty string gives one empty piece).
  Only a one-character separator is used by the source. A character that is not the
  separator joins the first piece of the rest; the rest always has a first piece (lemma
  \<open>Split_not_Nil\<close>), so the branch for an empty list of pieces is never taken.
\<close>

fun Split :: "char \<Rightarrow> string \<Rightarrow> string list" where
  "Split sep [] = [[]]"
| "Split sep (c # cs) =
     (if c = sep then [] # Split sep cs
      else (case Split sep cs of [] \<Rightarrow> [[c]] | w # ws \<Rightarrow> (c # w) # ws))"

text \<open>\<open>strings.Join(elems, sep)\<close>.\<close>

fun Join :: "string list \<Rightarrow> string \<Rightarrow> string" where
  "Join [] sep = []"
| "Join [x] sep = x"
| "Join (x # y # ys) sep = x @ sep @ Join (y # ys) sep"

text \<open>\<open>strconv.Itoa\<close> on a non-negative number: its decimal digits.\<close>

definition digit :: "nat \<Rightarrow> char" where
  "digit d = char_of (48 + d)"

fun Itoa :: "nat \<Rightarrow> string" where
  "Itoa n = (if n < 10 then [digit n] else Itoa (n div 10) @ [digit (n mod 10)])"

declare Itoa.simps [simp del]

section \<open>The regular expressions of the line classifier\<close>

text \<open>
  The three patterns the source compiles are concatenations of literal text, one leading
  \<open>.*\<close> and captured groups \<open>(\S+)\<close>. Go's \<open>regexp\<close> package returns the leftmost
  match and, among the matches that start there, the one a backtracking matcher finds
  first; both repetitions are greedy, so a backtracking matcher tries the longest run of
  the character class first and then gives characters back one at a time.

  \<open>.\<close> is any character but a line feed; \<open>\S\<close> is any character but the five that
  Go's \<open>\s\<close> names: tab, line feed, form feed, carriage return and space. The matcher
  works on bytes; the literal text that follows every repetition in the three patterns is
  ASCII, so a match never ends inside a multi-byte character.
\<close>

datatype cclass = AnyChar | NonSpace

fun in_class :: "cclass \<Rightarrow> char \<Rightarrow> bool" where
  "in_class AnyChar c = (c \<noteq> CHR 0x0A)"
| "in_class NonSpace c =
     (c \<noteq> CHR 0x09 \<and> c \<noteq> CHR 0x0A \<and> c \<noteq> CHR 0x0C \<and> c \<noteq> CHR 0x0D \<and> c \<noteq> CHR '' '')"

datatype item =
    Lit string      \<comment> \<open>literal text\<close>
  | Star cclass     \<comment> \<open>\<open>c*\<close>, greedy, not captured\<close>
  | Cap cclass      \<comment> \<open>\<open>(c+)\<close>, greedy, captured\<close>

text \<open>
  \<open>first_down f lo d\<close> is the first result among \<open>f (lo + d - 1)\<close>, ..., \<open>f lo\<close>: the
  greedy order over the lengths a repetition may take.
\<close>

primrec first_down :: "(nat \<Rightarrow> 'a option) \<Rightarrow> nat \<Rightarrow> nat \<Rightarrow> 'a option" where
  "first_down f lo 0 = None"
| "first_down f lo (Suc d) =
     (case f (lo + d) of Some r \<Rightarrow> Some r | None \<Rightarrow> first_down f lo d)"

text \<open>
  \<open>match_here its s\<close> matches the items at the start of \<open>s\<close> and gives the number of
  characters matched and the captured groups, in order.
\<close>

primrec match_here :: "item list \<Rightarrow> string \<Rightarrow> (nat \<times> string list) option" where
  "match_here [] = (\<lambda>s. Some (0, []))"
| "match_here (it # its) = (\<lambda>s.
     case it of
       Lit l \<Rightarrow>
         if take (length l) s = l
         then map_option (\<lambda>(n, gs). (length l + n, gs)) (match_here its (drop (length l) s))
         else None
     | Star c \<Rightarrow>
         first_down
           (\<lambda>k. map_option (\<lambda>(n, gs). (k + n, gs)) (match_here its (drop k s)))
           0 (Suc (length (takeWhile (in_class c) s)))
     | Cap c \<Rightarrow>
         first_down
           (\<lambda>k. map_option (\<lambda>(n, gs). (k + n, take k s # gs)) (match_here its (drop k s)))
           1 (length (takeWhile (in_class c) s)))"

text \<open>
  \<open>FindStringSubmatch\<close>: the text of the leftmost match followed by its groups, or the
  empty slice when nothing matches.
\<close>

fun FindStringSubmatch :: "item list \<Rightarrow> string \<Rightarrow> string list" where
  "FindStringSubmatch re s =
     (case match_here re s of
        Some (n, gs) \<Rightarrow> take n s # gs
      | None \<Rightarrow> (case s of [] \<Rightarrow> [] | c # s' \<Rightarrow> FindStringSubmatch re s'))"

declare FindStringSubmatch.simps [simp del]

text \<open>\<open>.*: (\S+) total, (\S+) bytes; (\S+) new, (\S+) bytes\<close>\<close>

definition files_re :: "item list" where
  "files_re =
     [Star AnyChar, Lit '': '', Cap NonSpace, Lit '' total, '', Cap NonSpace,
      Lit '' bytes; '', Cap NonSpace, Lit '' new, '', Cap NonSpace, Lit '' bytes'']"

text \<open>\<open>.*: (\S+) total, (\S+) bytes; (\S+) new, (\S+) bytes, (\S+) bytes uploaded\<close>\<close>

definition chunks_re :: "item list" where
  "chunks_re =
     [Star AnyChar, Lit '': '', Cap NonSpace, Lit '' total, '', Cap NonSpace,
      Lit '' bytes; '', Cap NonSpace, Lit '' new, '', Cap NonSpace, Lit '' bytes, '',
      Cap NonSpace, Lit '' bytes uploaded'']"

text \<open>\<open>Copy complete, (\S+) total chunks, (\S+) chunks copied, (\S+) skipped\<close>\<close>

definition copy_re :: "item list" where
  "copy_re =
     [Lit ''Copy complete, '', Cap NonSpace, Lit '' total chunks, '', Cap NonSpace,
      Lit '' chunks copied, '', Cap NonSpace, Lit '' skipped'']"

section \<open>Revision records and the trace of a run\<close>

record backupRevision =
  storage :: string
  chunkTotalCount :: string
  chunkTotalSize :: string
  filesTotalCount :: string
  filesTotalSize :: string
  filesNewCount :: string
  filesNewSize :: string
  chunkNewCount :: string
  chunkNewSize :: string
  chunkNewUploaded :: string
  duration :: string

text \<open>
  \<open>copyRevision\<close>: its fields \<open>chunkTotalCount\<close> and \<open>duration\<close> carry the suffix
  \<open>_c\<close>, the names being taken by \<open>backupRevision\<close>.
\<close>

record copyRevision =
  storageFrom :: string
  storageTo :: string
  chunkTotalCount_c :: string
  chunkCopyCount :: string
  chunkSkipCount :: string
  duration_c :: string

text \<open>The zero value of a Go struct of strings: every field empty.\<close>

definition zero_backupRevision :: backupRevision where
  "zero_backupRevision =
     \<lparr>storage = [], chunkTotalCount = [], chunkTotalSize = [], filesTotalCount = [],
      filesTotalSize = [], filesNewCount = [], filesNewSize = [], chunkNewCount = [],
      chunkNewSize = [], chunkNewUploaded = [], duration = []\<rparr>"

definition zero_copyRevision :: copyRevision where
  "zero_copyRevision =
     \<lparr>storageFrom = [], storageTo = [], chunkTotalCount_c = [], chunkCopyCount = [],
      chunkSkipCount = [], duration_c = []\<rparr>"

text \<open>A Go \<open>error\<close> is modelled by the text its \<open>Error()\<close> method gives.\<close>

datatype error = Error string

fun error_text :: "error \<Rightarrow> string" where
  "error_text (Error m) = m"

text \<open>
  Everything a run does that can be observed, in the order it happens. \<open>LogMessage\<close>
  and \<open>LogError\<close> carry whether a logger was passed (\<open>False\<close> for \<open>nil\<close>). \<open>Exec\<close>
  records one call of the process executor: path, argument list, working directory and
  the error it returned. \<open>Ran\<close> is a ghost event: it marks that \<open>performBackup\<close>
  called one of the four runners and what the runner returned.
\<close>

datatype opkind = OpBackup | OpCopy | OpPrune | OpCheck

datatype result = ReturnNil | ReturnErr error | Panicked

datatype event =
    LoggerPrintln string
  | LogMessage bool string
  | LogError bool string
  | Printf string
  | Exec string "string list" string "error option"
  | RotateLogFiles "error option"
  | OsCreate string string "error option"
  | NotifyOfStart
  | NotifyOfSuccess "error option"
  | Ran opkind result

fun of_error :: "error option \<Rightarrow> result" where
  "of_error None = ReturnNil"
| "of_error (Some e) = ReturnErr e"

section \<open>Configuration and global state\<close>

text \<open>
  The four target structs of \<open>configurationFile\<close>. Field names that several structs
  share carry a suffix after the first: \<open>_c\<close> (copy), \<open>_p\<close> (prune), \<open>_k\<close> (check).
\<close>

record backupInfo =
  Name :: string
  Threads :: string
  Vss :: bool
  VssTimeout :: string
  Quote :: string

record copyInfo =
  From :: string
  To :: string
  Threads_c :: string
  Quote_c :: string

record pruneInfo =
  Storage :: string
  Keep :: string
  Threads_p :: string
  All_p :: bool
  Quote_p :: string

record checkInfo =
  Storage_k :: string
  All_k :: bool
  Quote_k :: string

record configurationFile =
  configFilename :: string
  RepoDir :: string
  BackupInfo :: "backupInfo list"
  CopyInfo :: "copyInfo list"
  PruneInfo :: "pruneInfo list"
  CheckInfo :: "checkInfo list"

text \<open>The package-level variables the runners read.\<close>

record globals =
  cmdBackup :: bool
  cmdCopy :: bool
  cmdPrune :: bool
  cmdCheck :: bool
  debugFlag :: bool
  duplicacyPath :: string
  globalLogDir :: string
  cmdConfig :: string
  configFile :: configurationFile

text \<open>The package-level variables the runners write, and the trace.\<close>

record state =
  backupTable :: "backupRevision list"
  copyTable :: "copyRevision list"
  events :: "event list"

definition emit :: "event list \<Rightarrow> state \<Rightarrow> state" where
  "emit evs st = st\<lparr>events := events st @ evs\<rparr>"

text \<open>
  The collaborators whose code is outside the two source files are parameters. Each is an
  oracle that may answer differently as the run proceeds: it is given the trace so far.
  The executor answers with the lines it hands to the line sink, in order, and the error
  it returns. \<open>now\<close> is \<open>time.Now().UTC()\<close> and \<open>formatNow\<close> is
  \<open>time.Now().Format(...)\<close>.
\<close>

record env =
  executor :: "event list \<Rightarrow> string \<Rightarrow> string list \<Rightarrow> string \<Rightarrow> string list \<times> error option"
  now :: "event list \<Rightarrow> nat"
  formatNow :: "event list \<Rightarrow> string"
  getTimeDiffString :: "nat \<Rightarrow> nat \<Rightarrow> string"
  rotateLogFiles :: "event list \<Rightarrow> error option"
  osCreate :: "event list \<Rightarrow> string \<Rightarrow> string \<Rightarrow> error option"
  notifyOfSuccess :: "event list \<Rightarrow> backupRevision list \<Rightarrow> copyRevision list \<Rightarrow> error option"

section \<open>The line sinks\<close>

text \<open>
  \<open>backupLogger\<close> is a closure over the variable \<open>backupEntry\<close> and the logger: it
  maps the pair of record and trace to the new pair. The index \<open>elements[4]\<close> is in range
  whenever the guard \<open>len(elements) >= 4\<close> holds, because \<open>FindStringSubmatch\<close> on
  \<open>files_re\<close> gives none or five elements (lemma \<open>files_elements_length\<close>).
\<close>

definition backupLogger :: "string \<Rightarrow> backupRevision \<times> event list \<Rightarrow> backupRevision \<times> event list" where
  "backupLogger line = (\<lambda>(backupEntry, ev).
     if HasPrefix line ''Files:'' then
       (let elements = FindStringSubmatch files_re line
        in (if length elements \<ge> 4
            then backupEntry\<lparr>filesTotalCount := elements ! 1, filesTotalSize := elements ! 2,
                              filesNewCount := elements ! 3, filesNewSize := elements ! 4\<rparr>
            else backupEntry,
            ev @ [LoggerPrintln line, LogMessage True (''  '' @ line)]))
     else if HasPrefix line ''All chunks:'' then
       (let elements = FindStringSubmatch chunks_re line
        in (if length elements \<ge> 6
            then backupEntry\<lparr>chunkTotalCount := elements ! 1, chunkTotalSize := elements ! 2,
                              chunkNewCount := elements ! 3, chunkNewSize := elements ! 4,
                              chunkNewUploaded := elements ! 5\<rparr>
            else backupEntry,
            ev @ [LoggerPrintln line, LogMessage True (''  '' @ line)]))
     else if HasPrefix line ''Enter storage password:'' \<or> HasSuffix line ''Authorization failure'' then
       (backupEntry,
        ev @ [LogMessage True ''  Error: Duplicacy appears to be prompting for a password'',
              LoggerPrintln line, LogMessage True (''  '' @ line)])
     else (backupEntry, ev @ [LoggerPrintln line]))"

definition copyLogger :: "string \<Rightarrow> copyRevision \<times> event list \<Rightarrow> copyRevision \<times> event list" where
  "copyLogger line = (\<lambda>(copyEntry, ev).
     if HasPrefix line ''Copy complete, '' then
       (let elements = FindStringSubmatch copy_re line
        in (if length elements \<ge> 4
            then copyEntry\<lparr>chunkTotalCount_c := elements ! 1, chunkCopyCount := elements ! 2,
                            chunkSkipCount := elements ! 3\<rparr>
            else copyEntry,
            ev @ [LoggerPrintln line, LogMessage True (''  '' @ line)]))
     else (copyEntry, ev @ [LoggerPrintln line]))"

text \<open>The sink of prune and check: \<open>func(s string) { logger.Println(s) }\<close>.\<close>

definition anon :: "string \<Rightarrow> event list \<Rightarrow> event list" where
  "anon s ev = ev @ [LoggerPrintln s]"


section \<open>The operation runners\<close>

definition separator :: string where
  "separator = ''######################################################################''"

text \<open>
  The unit-test support at the head of every loop body: a copy of \<open>testArgs\<close> whose
  second element is rewritten when the first is \<open>testbackup\<close>. With the one-element list
  \<open>[testbackup]\<close> the assignment \<open>cmdArgs[1] = ...\<close> is out of range and Go panics:
  the result \<open>None\<close>.
\<close>

definition test_cmdArgs :: "string list \<Rightarrow> string \<Rightarrow> nat \<Rightarrow> string list option" where
  "test_cmdArgs testArgs tag i =
     (if length testArgs > 0 \<and> testArgs ! 0 = ''testbackup''
      then (if length testArgs > 1
            then Some (testArgs[1 := testArgs ! 1 @ tag @ Itoa (i + 1)])
            else None)
      else Some testArgs)"

text \<open>\<open>fmt\<close>'s \<open>%v\<close> of a slice of strings and of a boolean.\<close>

definition show_strings :: "string list \<Rightarrow> string" where
  "show_strings xs = ''['' @ Join xs '' '' @ '']''"

definition show_bool :: "bool \<Rightarrow> string" where
  "show_bool b = (if b then ''true'' else ''false'')"

subsection \<open>Backup\<close>

text \<open>The argument list of one backup target, from the \<open>append\<close> calls of the loop body.\<close>

definition backup_cmdArgs :: "string list \<Rightarrow> backupInfo \<Rightarrow> string list" where
  "backup_cmdArgs cmdArgs backupInfo =
     cmdArgs @ [''backup'', ''-storage'', Name backupInfo, ''-stats'']
       @ [''-threads'', Threads backupInfo]
       @ (if Vss backupInfo
          then [''-vss'']
               @ (if VssTimeout backupInfo \<noteq> [] then [''-vss-timeout'', VssTimeout backupInfo] else [])
          else [])
       @ (if Quote backupInfo \<noteq> [] then ['' '' @ Quote backupInfo] else [])"

definition backup_vssFlags :: "backupInfo \<Rightarrow> string" where
  "backup_vssFlags backupInfo =
     (if Vss backupInfo
      then '' -vss''
           @ (if VssTimeout backupInfo \<noteq> [] then '' -vss-timeout '' @ VssTimeout backupInfo else [])
      else [])"

text \<open>
  One iteration of the loop of \<open>performDuplicacyBackup\<close>, for the target at index \<open>i\<close>.
  \<open>backupEntry\<close> is declared before the loop and captured by the sink, so the iteration
  receives the record as the previous iteration left it and returns it.
\<close>

definition backup_target ::
  "env \<Rightarrow> globals \<Rightarrow> string list \<Rightarrow> nat \<Rightarrow> backupInfo \<Rightarrow> backupRevision \<Rightarrow> state
     \<Rightarrow> result \<times> backupRevision \<times> state" where
  "backup_target en g testArgs i backupInfo backupEntry st =
     (let backupStartTime = now en (events st);
          st1 = emit [LoggerPrintln separator] st
      in case test_cmdArgs testArgs ''_backup'' i of
           None \<Rightarrow> (Panicked, backupEntry, st1)
         | Some cmdArgs0 \<Rightarrow>
            (let cmdArgs = backup_cmdArgs cmdArgs0 backupInfo;
                 st2 = emit
                   ([Printf (''BACKUP: {'' @ Name backupInfo @ '' '' @ Threads backupInfo @ '' ''
                             @ show_bool (Vss backupInfo) @ '' '' @ VssTimeout backupInfo @ '' ''
                             @ Quote backupInfo @ ''}'' @ [CHR 0x0A]),
                     LogMessage True (''Backing up to storage '' @ Name backupInfo
                             @ backup_vssFlags backupInfo @ '' with '' @ Threads backupInfo
                             @ '' threads'' @ Quote backupInfo)]
                    @ (if debugFlag g
                       then [LogMessage True (''Executing: '' @ duplicacyPath g @ show_strings cmdArgs)]
                       else [])) st1;
                 (lines, err) = executor en (events st2) (duplicacyPath g) cmdArgs (RepoDir (configFile g));
                 st3 = emit [Exec (duplicacyPath g) cmdArgs (RepoDir (configFile g)) err] st2;
                 (backupEntry1, ev) = fold backupLogger lines (backupEntry, events st3);
                 st4 = st3\<lparr>events := ev\<rparr>
             in case err of
                  Some e \<Rightarrow>
                    (ReturnErr e, backupEntry1,
                     emit [LogError True (''Error executing command: '' @ error_text e)] st4)
                | None \<Rightarrow>
                    (let backupDuration =
                           (if hd cmdArgs = ''testbackup'' then ''x seconds''
                            else getTimeDiffString en backupStartTime (now en (events st4)));
                         st5 = emit [LogMessage True (''  Duration: '' @ backupDuration)] st4;
                         backupEntry2 = backupEntry1\<lparr>storage := Name backupInfo, duration := backupDuration\<rparr>
                     in (ReturnNil, backupEntry2,
                         st5\<lparr>backupTable := backupTable st5 @ [backupEntry2]\<rparr>))))"

fun backup_loop ::
  "env \<Rightarrow> globals \<Rightarrow> string list \<Rightarrow> nat \<Rightarrow> backupInfo list \<Rightarrow> backupRevision \<Rightarrow> state
     \<Rightarrow> result \<times> state" where
  "backup_loop en g testArgs i [] backupEntry st = (ReturnNil, st)"
| "backup_loop en g testArgs i (backupInfo # rest) backupEntry st =
     (case backup_target en g testArgs i backupInfo backupEntry st of
        (ReturnNil, backupEntry', st') \<Rightarrow> backup_loop en g testArgs (i + 1) rest backupEntry' st'
      | (r, backupEntry', st') \<Rightarrow> (r, st'))"

definition performDuplicacyBackup :: "env \<Rightarrow> globals \<Rightarrow> string list \<Rightarrow> state \<Rightarrow> result \<times> state" where
  "performDuplicacyBackup en g testArgs st =
     backup_loop en g testArgs 0 (BackupInfo (configFile g)) zero_backupRevision st"

subsection \<open>Copy\<close>

definition copy_cmdArgs :: "string list \<Rightarrow> copyInfo \<Rightarrow> string list" where
  "copy_cmdArgs cmdArgs copyInfo =
     cmdArgs @ [''copy'', ''-from'', From copyInfo, ''-to'', To copyInfo]
       @ [''-threads'', Threads_c copyInfo]
       @ (if Quote_c copyInfo \<noteq> [] then ['' '' @ Quote_c copyInfo] else [])"

definition copy_target ::
  "env \<Rightarrow> globals \<Rightarrow> string list \<Rightarrow> nat \<Rightarrow> copyInfo \<Rightarrow> copyRevision \<Rightarrow> state
     \<Rightarrow> result \<times> copyRevision \<times> state" where
  "copy_target en g testArgs i copyInfo copyEntry st =
     (let copyStartTime = now en (events st);
          st1 = emit [LoggerPrintln separator] st
      in case test_cmdArgs testArgs ''_copy'' i of
           None \<Rightarrow> (Panicked, copyEntry, st1)
         | Some cmdArgs0 \<Rightarrow>
            (let cmdArgs = copy_cmdArgs cmdArgs0 copyInfo;
                 st2 = emit
                   ([LogMessage True (''Copying from storage '' @ From copyInfo @ '' to storage ''
                             @ To copyInfo @ '' with '' @ Threads_c copyInfo @ '' threads''
                             @ Quote_c copyInfo)]
                    @ (if debugFlag g
                       then [LogMessage True (''Executing: '' @ duplicacyPath g @ show_strings cmdArgs)]
                       else [])) st1;
                 (lines, err) = executor en (events st2) (duplicacyPath g) cmdArgs (RepoDir (configFile g));
                 st3 = emit [Exec (duplicacyPath g) cmdArgs (RepoDir (configFile g)) err] st2;
                 (copyEntry1, ev) = fold copyLogger lines (copyEntry, events st3);
                 st4 = st3\<lparr>events := ev\<rparr>
             in case err of
                  Some e \<Rightarrow>
                    (ReturnErr e, copyEntry1,
                     emit [LogError True (''Error executing command: '' @ error_text e)] st4)
                | None \<Rightarrow>
                    (let copyDuration =
                           (if hd cmdArgs = ''testbackup'' then ''x seconds''
                            else getTimeDiffString en copyStartTime (now en (events st4)));
                         st5 = emit [LogMessage True (''  Duration: '' @ copyDuration)] st4;
                         copyEntry2 = copyEntry1\<lparr>storageFrom := From copyInfo, storageTo := To copyInfo,
                                                   duration_c := copyDuration\<rparr>
                     in (ReturnNil, copyEntry2,
                         st5\<lparr>copyTable := copyTable st5 @ [copyEntry2]\<rparr>))))"

fun copy_loop ::
  "env \<Rightarrow> globals \<Rightarrow> string list \<Rightarrow> nat \<Rightarrow> copyInfo list \<Rightarrow> copyRevision \<Rightarrow> state
     \<Rightarrow> result \<times> state" where
  "copy_loop en g testArgs i [] copyEntry st = (ReturnNil, st)"
| "copy_loop en g testArgs i (copyInfo # rest) copyEntry st =
     (case copy_target en g testArgs i copyInfo copyEntry st of
        (ReturnNil, copyEntry', st') \<Rightarrow> copy_loop en g testArgs (i + 1) rest copyEntry' st'
      | (r, copyEntry', st') \<Rightarrow> (r, st'))"

definition performDuplicacyCopy :: "env \<Rightarrow> globals \<Rightarrow> string list \<Rightarrow> state \<Rightarrow> result \<times> state" where
  "performDuplicacyCopy en g testArgs st =
     copy_loop en g testArgs 0 (CopyInfo (configFile g)) zero_copyRevision st"


subsection \<open>Prune\<close>

text \<open>
  The prune loop builds the rewritten copy of \<open>testArgs\<close> like the others (and panics like
  them) but then appends to \<open>testArgs\<close> itself. The stored keep string is split at
  every space.
\<close>

definition prune_cmdArgs :: "string list \<Rightarrow> pruneInfo \<Rightarrow> string list" where
  "prune_cmdArgs testArgs pruneInfo =
     testArgs @ [''prune'', ''-storage'', Storage pruneInfo]
       @ Split CHR '' '' (Keep pruneInfo)
       @ [''-threads'', Threads_p pruneInfo]
       @ (if All_p pruneInfo then [''-all''] else [])
       @ (if Quote_p pruneInfo \<noteq> [] then ['' '' @ Quote_p pruneInfo] else [])"

definition prune_target ::
  "env \<Rightarrow> globals \<Rightarrow> string list \<Rightarrow> nat \<Rightarrow> pruneInfo \<Rightarrow> state \<Rightarrow> result \<times> state" where
  "prune_target en g testArgs i pruneInfo st =
     (let st1 = emit [LoggerPrintln separator] st
      in case test_cmdArgs testArgs ''_prune'' i of
           None \<Rightarrow> (Panicked, st1)
         | Some cmdArgs0 \<Rightarrow>
            (let cmdArgs = prune_cmdArgs testArgs pruneInfo;
                 st2 = emit
                   ([LogMessage True (''Pruning storage '' @ Storage pruneInfo @ '' using ''
                             @ Threads_p pruneInfo @ '' thread(s)''
                             @ (if All_p pruneInfo then '' -all'' else [])
                             @ Quote_p pruneInfo)]
                    @ (if debugFlag g
                       then [LogMessage True (''Executing: '' @ duplicacyPath g @ show_strings cmdArgs)]
                       else [])) st1;
                 (lines, err) = executor en (events st2) (duplicacyPath g) cmdArgs (RepoDir (configFile g));
                 st3 = emit [Exec (duplicacyPath g) cmdArgs (RepoDir (configFile g)) err] st2;
                 st4 = st3\<lparr>events := fold anon lines (events st3)\<rparr>
             in case err of
                  Some e \<Rightarrow>
                    (ReturnErr e,
                     emit [LogError True (''Error executing command: '' @ error_text e)] st4)
                | None \<Rightarrow> (ReturnNil, st4)))"

fun prune_loop ::
  "env \<Rightarrow> globals \<Rightarrow> string list \<Rightarrow> nat \<Rightarrow> pruneInfo list \<Rightarrow> state \<Rightarrow> result \<times> state" where
  "prune_loop en g testArgs i [] st = (ReturnNil, st)"
| "prune_loop en g testArgs i (pruneInfo # rest) st =
     (case prune_target en g testArgs i pruneInfo st of
        (ReturnNil, st') \<Rightarrow> prune_loop en g testArgs (i + 1) rest st'
      | (r, st') \<Rightarrow> (r, st'))"

definition performDuplicacyPrune :: "env \<Rightarrow> globals \<Rightarrow> string list \<Rightarrow> state \<Rightarrow> result \<times> state" where
  "performDuplicacyPrune en g testArgs st =
     prune_loop en g testArgs 0 (PruneInfo (configFile g)) st"

subsection \<open>Check\<close>

definition check_cmdArgs :: "string list \<Rightarrow> checkInfo \<Rightarrow> string list" where
  "check_cmdArgs cmdArgs checkInfo =
     cmdArgs @ [''check'', ''-storage'', Storage_k checkInfo]
       @ (if All_k checkInfo then [''-all''] else [])
       @ (if Quote_k checkInfo \<noteq> [] then ['' '' @ Quote_k checkInfo] else [])"

definition check_target ::
  "env \<Rightarrow> globals \<Rightarrow> string list \<Rightarrow> nat \<Rightarrow> checkInfo \<Rightarrow> state \<Rightarrow> result \<times> state" where
  "check_target en g testArgs i checkInfo st =
     (let st1 = emit [LoggerPrintln separator] st
      in case test_cmdArgs testArgs ''_check'' i of
           None \<Rightarrow> (Panicked, st1)
         | Some cmdArgs0 \<Rightarrow>
            (let cmdArgs = check_cmdArgs cmdArgs0 checkInfo;
                 st2 = emit
                   ([LogMessage True (''Checking storage '' @ Storage_k checkInfo
                             @ (if All_k checkInfo then '' with -all'' else [])
                             @ Quote_k checkInfo)]
                    @ (if debugFlag g
                       then [LogMessage True (''Executing: '' @ duplicacyPath g @ show_strings cmdArgs)]
                       else [])) st1;
                 (lines, err) = executor en (events st2) (duplicacyPath g) cmdArgs (RepoDir (configFile g));
                 st3 = emit [Exec (duplicacyPath g) cmdArgs (RepoDir (configFile g)) err] st2;
                 st4 = st3\<lparr>events := fold anon lines (events st3)\<rparr>
             in case err of
                  Some e \<Rightarrow>
                    (ReturnErr e,
                     emit [LogError True (''Error executing command: '' @ error_text e)] st4)
                | None \<Rightarrow> (ReturnNil, st4)))"

fun check_loop ::
  "env \<Rightarrow> globals \<Rightarrow> string list \<Rightarrow> nat \<Rightarrow> checkInfo list \<Rightarrow> state \<Rightarrow> result \<times> state" where
  "check_loop en g testArgs i [] st = (ReturnNil, st)"
| "check_loop en g testArgs i (checkInfo # rest) st =
     (case check_target en g testArgs i checkInfo st of
        (ReturnNil, st') \<Rightarrow> check_loop en g testArgs (i + 1) rest st'
      | (r, st') \<Rightarrow> (r, st'))"

definition performDuplicacyCheck :: "env \<Rightarrow> globals \<Rightarrow> string list \<Rightarrow> state \<Rightarrow> result \<times> state" where
  "performDuplicacyCheck en g testArgs st =
     check_loop en g testArgs 0 (CheckInfo (configFile g)) st"

section \<open>The run orchestrator\<close>

text \<open>The ghost marker: what a runner returned, appended to the trace when it returns.\<close>

definition ran :: "opkind \<Rightarrow> result \<times> state \<Rightarrow> result \<times> state" where
  "ran k rs = (fst rs, emit [Ran k (fst rs)] (snd rs))"

text \<open>
  \<open>performBackup\<close>. Every \<open>return err\<close> of the source is a branch that returns at once
  with the state reached so far. The log file is \<open>cmdConfig + ".log"\<close> in
  \<open>globalLogDir\<close>; the two are handed to \<open>osCreate\<close> unjoined.
\<close>

definition performBackup :: "env \<Rightarrow> globals \<Rightarrow> state \<Rightarrow> result \<times> state" where
  "performBackup en g st =
     (let st1 = emit [LogMessage False ''Rotating log files''] st;
          rot = rotateLogFiles en (events st1);
          st2 = emit [RotateLogFiles rot] st1
      in case rot of
           Some e \<Rightarrow> (ReturnErr e, st2)
         | None \<Rightarrow>
            (let cr = osCreate en (events st2) (globalLogDir g) (cmdConfig g @ ''.log'');
                 st3 = emit [OsCreate (globalLogDir g) (cmdConfig g @ ''.log'') cr] st2
             in case cr of
                  Some e \<Rightarrow> (ReturnErr e, emit [LogError False (''Error: '' @ error_text e)] st3)
                | None \<Rightarrow>
                   (let startTime = now en (events st3);
                        st4 = emit [LogMessage True (''Beginning backup on '' @ formatNow en (events st3)),
                                    NotifyOfStart] st3
                    in case (if cmdBackup g then ran OpBackup (performDuplicacyBackup en g [] st4)
                             else (ReturnNil, st4)) of
                         (ReturnErr e, st5) \<Rightarrow> (ReturnErr e, st5)
                       | (Panicked, st5) \<Rightarrow> (Panicked, st5)
                       | (ReturnNil, st5) \<Rightarrow>
                     (case (if cmdCopy g then ran OpCopy (performDuplicacyCopy en g [] st5)
                            else (ReturnNil, st5)) of
                         (ReturnErr e, st6) \<Rightarrow> (ReturnErr e, st6)
                       | (Panicked, st6) \<Rightarrow> (Panicked, st6)
                       | (ReturnNil, st6) \<Rightarrow>
                     (case (if cmdPrune g then ran OpPrune (performDuplicacyPrune en g [] st6)
                            else (ReturnNil, st6)) of
                         (ReturnErr e, st7) \<Rightarrow> (ReturnErr e, st7)
                       | (Panicked, st7) \<Rightarrow> (Panicked, st7)
                       | (ReturnNil, st7) \<Rightarrow>
                     (case (if cmdCheck g then ran OpCheck (performDuplicacyCheck en g [] st7)
                            else (ReturnNil, st7)) of
                         (ReturnErr e, st8) \<Rightarrow> (ReturnErr e, st8)
                       | (Panicked, st8) \<Rightarrow> (Panicked, st8)
                       | (ReturnNil, st8) \<Rightarrow>
                     (let st9 = emit [LoggerPrintln separator] st8;
                          st10 = emit [LogMessage True (''Operations completed in ''
                                    @ getTimeDiffString en startTime (now en (events st9)))] st9;
                          err = notifyOfSuccess en (events st10) (backupTable st10) (copyTable st10)
                      in (of_error err, emit [NotifyOfSuccess err] st10))))))))"


section \<open>Loading the configuration\<close>

text \<open>
  The YAML file as the decoder sees it once parsed: for every key of a mapping, whether it
  is present and, if so, its value converted to the type of the struct field. The keys are
  those of the \<open>yaml:"..."\<close> tags.
\<close>

record storageDoc =
  name_y :: "string option"
  threads_y :: "string option"
  vss_y :: "bool option"
  vssTimeout_y :: "string option"
  quote_y :: "string option"

record copyDoc =
  name_cy :: "string option"
  to_cy :: "string option"
  threads_cy :: "string option"
  quote_cy :: "string option"

record pruneDoc =
  storage_py :: "string option"
  keep_py :: "string option"
  threads_py :: "string option"
  all_py :: "bool option"
  quote_py :: "string option"

record checkDoc =
  storage_ky :: "string option"
  all_ky :: "bool option"
  quote_ky :: "string option"

record yamlDoc =
  repository_y :: "string option"
  storage_y :: "storageDoc list option"
  copy_y :: "copyDoc list option"
  prune_y :: "pruneDoc list option"
  check_y :: "checkDoc list option"

text \<open>
  The decoder of \<open>gopkg.in/yaml.v2\<close> (a library, not part of the repository). Decoding a
  sequence into a slice makes a new slice and decodes every entry into a new element that
  starts as the zero value of the element type; decoding a mapping into a struct assigns
  the fields whose keys are present and leaves the others as they are. The decoder does
  not read \<open>default\<close> tags.
\<close>

definition or_else :: "'a option \<Rightarrow> 'a \<Rightarrow> 'a" where
  "or_else v d = (case v of Some x \<Rightarrow> x | None \<Rightarrow> d)"

definition decode_storage :: "storageDoc \<Rightarrow> backupInfo" where
  "decode_storage d =
     \<lparr>Name = or_else (name_y d) [], Threads = or_else (threads_y d) [],
      Vss = or_else (vss_y d) False, VssTimeout = or_else (vssTimeout_y d) [],
      Quote = or_else (quote_y d) []\<rparr>"

definition decode_copy :: "copyDoc \<Rightarrow> copyInfo" where
  "decode_copy d =
     \<lparr>From = or_else (name_cy d) [], To = or_else (to_cy d) [],
      Threads_c = or_else (threads_cy d) [], Quote_c = or_else (quote_cy d) []\<rparr>"

definition decode_prune :: "pruneDoc \<Rightarrow> pruneInfo" where
  "decode_prune d =
     \<lparr>Storage = or_else (storage_py d) [], Keep = or_else (keep_py d) [],
      Threads_p = or_else (threads_py d) [], All_p = or_else (all_py d) False,
      Quote_p = or_else (quote_py d) []\<rparr>"

definition decode_check :: "checkDoc \<Rightarrow> checkInfo" where
  "decode_check d =
     \<lparr>Storage_k = or_else (storage_ky d) [], All_k = or_else (all_ky d) False,
      Quote_k = or_else (quote_ky d) []\<rparr>"

definition unmarshal_plain :: "yamlDoc \<Rightarrow> configurationFile \<Rightarrow> configurationFile" where
  "unmarshal_plain doc config =
     config\<lparr>RepoDir := or_else (repository_y doc) (RepoDir config),
            BackupInfo := or_else (map_option (map decode_storage) (storage_y doc)) (BackupInfo config),
            CopyInfo := or_else (map_option (map decode_copy) (copy_y doc)) (CopyInfo config),
            PruneInfo := or_else (map_option (map decode_prune) (prune_y doc)) (PruneInfo config),
            CheckInfo := or_else (map_option (map decode_check) (check_y doc)) (CheckInfo config)\<rparr>"

text \<open>
  \<open>defaults.Set\<close> of \<open>github.com/creasty/defaults\<close> (a library, not part of the
  repository) walks the value it is given: a field with a \<open>default\<close> tag that holds its
  zero value receives the default, and the elements a slice holds at that moment are
  visited in turn. The only tag in \<open>configurationFile\<close> is \<open>default:"true"\<close> on
  \<open>PruneInfo[].All\<close>.
\<close>

definition defaults_Set :: "configurationFile \<Rightarrow> configurationFile" where
  "defaults_Set config =
     config\<lparr>PruneInfo := map (\<lambda>p. if All_p p then p else p\<lparr>All_p := True\<rparr>) (PruneInfo config)\<rparr>"

text \<open>\<open>UnmarshalYAML\<close>: the defaults first, on the receiver as it is, then the decoder.\<close>

definition UnmarshalYAML :: "configurationFile \<Rightarrow> yamlDoc \<Rightarrow> configurationFile" where
  "UnmarshalYAML config doc = unmarshal_plain doc (defaults_Set config)"

definition newConfigurationFile :: configurationFile where
  "newConfigurationFile =
     \<lparr>configFilename = [], RepoDir = [], BackupInfo = [], CopyInfo = [], PruneInfo = [],
      CheckInfo = []\<rparr>"

definition setConfig :: "configurationFile \<Rightarrow> string \<Rightarrow> configurationFile" where
  "setConfig config cnfFile = config\<lparr>configFilename := cnfFile\<rparr>"

text \<open>
  What \<open>loadConfig\<close> finds at the path of the configuration file: no file (\<open>os.Stat\<close>
  reports that it does not exist), a file that \<open>ioutil.ReadFile\<close> cannot read, text that
  the YAML parser rejects before any field is decoded, or a document whose values have
  the types of the fields.
\<close>

datatype configSource = Missing error | Unreadable error | Malformed error | Document yamlDoc

text \<open>The validation loops. \<open>err\<close> is the variable of that name: the last error wins.\<close>

fun validate_backup :: "nat \<Rightarrow> backupInfo list \<Rightarrow> error option \<Rightarrow> error option \<times> backupInfo list" where
  "validate_backup i [] err = (err, [])"
| "validate_backup i (bi # rest) err =
     (let err1 = (if Name bi = []
                  then Some (Error (''missing mandatory storage field: '' @ Itoa i @ ''.name''))
                  else err);
          bi1 = (if Threads bi = [] then bi\<lparr>Threads := ''1''\<rparr> else bi);
          (err2, rest1) = validate_backup (i + 1) rest err1
      in (err2, bi1 # rest1))"

fun validate_copy :: "nat \<Rightarrow> copyInfo list \<Rightarrow> error option \<Rightarrow> error option \<times> copyInfo list" where
  "validate_copy i [] err = (err, [])"
| "validate_copy i (ci # rest) err =
     (let err1 = (if From ci = []
                  then Some (Error (''missing mandatory from field: '' @ Itoa i @ ''.from''))
                  else err);
          err2 = (if To ci = []
                  then Some (Error (''missing mandatory to field: '' @ Itoa i @ ''.to''))
                  else err1);
          ci1 = (if Threads_c ci = [] then ci\<lparr>Threads_c := ''1''\<rparr> else ci);
          (err3, rest1) = validate_copy (i + 1) rest err2
      in (err3, ci1 # rest1))"

text \<open>
  The prune loop also rewrites the keep string: split at the spaces, \<open>-keep \<close> put before
  every piece, joined with spaces again.
\<close>

definition expand_keep :: "string \<Rightarrow> string" where
  "expand_keep keep = Join (map (\<lambda>element. ''-keep '' @ element) (Split CHR '' '' keep)) '' ''"

fun validate_prune :: "nat \<Rightarrow> pruneInfo list \<Rightarrow> error option \<Rightarrow> error option \<times> pruneInfo list" where
  "validate_prune i [] err = (err, [])"
| "validate_prune i (pi # rest) err =
     (let err1 = (if Storage pi = []
                  then Some (Error (''missing mandatory prune field: '' @ Itoa i @ ''.storage''))
                  else err);
          err2 = (if Keep pi = []
                  then Some (Error (''missing mandatory prune field: '' @ Itoa i @ ''.keep''))
                  else err1);
          pi1 = (if Keep pi = [] then pi else pi\<lparr>Keep := expand_keep (Keep pi)\<rparr>);
          pi2 = (if Threads_p pi = [] then pi1\<lparr>Threads_p := ''1''\<rparr> else pi1);
          (err3, rest1) = validate_prune (i + 1) rest err2
      in (err3, pi2 # rest1))"

fun validate_check :: "nat \<Rightarrow> checkInfo list \<Rightarrow> error option \<Rightarrow> error option" where
  "validate_check i [] err = err"
| "validate_check i (ci # rest) err =
     validate_check (i + 1) rest
       (if Storage_k ci = []
        then Some (Error (''missing mandatory check field: '' @ Itoa i @ ''.storage''))
        else err)"

text \<open>
  \<open>loadConfig\<close>: the error it returns and the configuration it leaves in the receiver.
  \<open>statRepo\<close> is \<open>os.Stat\<close> on the repository directory; its result is assigned to
  \<open>err\<close> whatever it is, so the error for an empty repository name, set just before,
  never survives. The messages \<open>loadConfig\<close> prints (\<open>logError\<close>, \<open>logMessage\<close>, the
  verbose and debug listings) change neither the error nor the configuration and are left
  out.
\<close>

definition loadConfig ::
  "configSource \<Rightarrow> (string \<Rightarrow> error option) \<Rightarrow> configurationFile
     \<Rightarrow> error option \<times> configurationFile" where
  "loadConfig src statRepo config =
     (case src of
        Missing e \<Rightarrow> (Some e, config)
      | Unreadable e \<Rightarrow> (Some e, config)
      | Malformed e \<Rightarrow> (Some e, config)
      | Document doc \<Rightarrow>
         (let config1 = UnmarshalYAML config doc;
              err1 = statRepo (RepoDir config1);
              (err2, backups) =
                 (if length (BackupInfo config1) = 0
                  then (Some (Error ''no storage locations defined in configuration''), BackupInfo config1)
                  else validate_backup 0 (BackupInfo config1) err1);
              (err3, copies) = validate_copy 0 (CopyInfo config1) err2;
              err4 = (if length (PruneInfo config1) = 0
                      then Some (Error ''no prune locations defined in configuration'')
                      else err3);
              (err5, prunes) = validate_prune 0 (PruneInfo config1) err4;
              err6 = (if length (CheckInfo config1) = 0
                      then Some (Error ''no check locations defined in configuration'')
                      else validate_check 0 (CheckInfo config1) err5)
          in (err6, config1\<lparr>BackupInfo := backups, CopyInfo := copies, PruneInfo := prunes\<rparr>)))"

section \<open>What a trace shows\<close>

text \<open>
  The errors the executor returned, one per invocation, in the order of the invocations.
\<close>

fun exec_results :: "event list \<Rightarrow> error option list" where
  "exec_results [] = []"
| "exec_results (Exec p a d r # evs) = r # exec_results evs"
| "exec_results (ev # evs) = exec_results evs"

text \<open>
  The argument lists the executor was called with, in the order of the invocations.
\<close>

fun exec_args :: "event list \<Rightarrow> string list list" where
  "exec_args [] = []"
| "exec_args (Exec p a d r # evs) = a # exec_args evs"
| "exec_args (ev # evs) = exec_args evs"

text \<open>
  The steps of the run orchestrator. A trace shows a step where the collaborator is called
  (\<open>rotateLogFiles\<close>, \<open>notifyOfStart\<close>, \<open>notifyOfSuccess\<close>) or where a runner
  returns (the ghost event \<open>Ran\<close>), together with what the step returned.
\<close>

datatype step = RotateLogs | NotifyStart | RunOp opkind | NotifySuccess

fun steps :: "event list \<Rightarrow> (step \<times> result) list" where
  "steps [] = []"
| "steps (RotateLogFiles r # evs) = (RotateLogs, of_error r) # steps evs"
| "steps (NotifyOfStart # evs) = (NotifyStart, ReturnNil) # steps evs"
| "steps (Ran k r # evs) = (RunOp k, r) # steps evs"
| "steps (NotifyOfSuccess r # evs) = (NotifySuccess, of_error r) # steps evs"
| "steps (ev # evs) = steps evs"

text \<open>
  The events a call added to the trace: those of the final state after the ones the initial
  state already had.
\<close>

definition new_events :: "state \<Rightarrow> state \<Rightarrow> event list" where
  "new_events st st' = drop (length (events st)) (events st')"


text \<open>
  A token in the sense of \<open>(\S+)\<close>: one or more characters, none of them white space.
\<close>

definition token :: "string \<Rightarrow> bool" where
  "token t = (t \<noteq> [] \<and> list_all (in_class NonSpace) t)"

section \<open>Definitions used in the proofs\<close>

text \<open>
  \<open>captures its s gs\<close>: the items match at the start of \<open>s\<close> with groups \<open>gs\<close>.
\<close>

definition captures :: "item list \<Rightarrow> string \<Rightarrow> string list \<Rightarrow> bool" where
  "captures its s gs = (\<exists>n. match_here its s = Some (n, gs))"

text \<open>
  The number of spaces in a string, and the number of spaces in the literal text of a pattern:
  a match needs at least as many spaces in the line as the literals have.
\<close>

definition spaces :: "string \<Rightarrow> nat" where
  "spaces s = length (filter (\<lambda>c. c = CHR '' '') s)"

fun lit_spaces :: "item list \<Rightarrow> nat" where
  "lit_spaces [] = 0"
| "lit_spaces (Lit l # its) = spaces l + lit_spaces its"
| "lit_spaces (it # its) = lit_spaces its"

text \<open>
  The number of captured groups of a pattern.
\<close>

fun ncaps :: "item list \<Rightarrow> nat" where
  "ncaps [] = 0"
| "ncaps (Cap c # its) = Suc (ncaps its)"
| "ncaps (it # its) = ncaps its"

text \<open>
  \<open>files_re\<close> without its leading \<open>.*\<close>.
\<close>

definition files_tail :: "item list" where
  "files_tail = [Lit '': '', Cap NonSpace, Lit '' total, '', Cap NonSpace,
      Lit '' bytes; '', Cap NonSpace, Lit '' new, '', Cap NonSpace, Lit '' bytes'']"

text \<open>
  Events that are log output only: no step and no invocation among them.
\<close>

definition quiet :: "event list \<Rightarrow> bool" where
  "quiet evs = (steps evs = [] \<and> exec_results evs = [] \<and> exec_args evs = [])"

text \<open>
  What one iteration of the backup loop does to the trace and the tables, by its result.
\<close>

definition backup_target_spec ::
  "string list \<Rightarrow> backupInfo \<Rightarrow> state \<Rightarrow> result \<Rightarrow> backupRevision \<Rightarrow> state \<Rightarrow> event list \<Rightarrow> bool" where
  "backup_target_spec testArgs b st r e' st' new =
     (events st' = events st @ new \<and> steps new = [] \<and> copyTable st' = copyTable st \<and>
      (case r of
         Panicked \<Rightarrow> testArgs = [''testbackup''] \<and> exec_results new = [] \<and> backupTable st' = backupTable st
       | ReturnErr err \<Rightarrow> exec_results new = [Some err] \<and> backupTable st' = backupTable st
            \<and> (testArgs = [] \<longrightarrow> exec_args new = [backup_cmdArgs [] b])
       | ReturnNil \<Rightarrow> exec_results new = [None] \<and> backupTable st' = backupTable st @ [e']
            \<and> storage e' = Name b \<and> (testArgs = [] \<longrightarrow> exec_args new = [backup_cmdArgs [] b])))"

text \<open>
  What the backup loop does: \<open>rows\<close> are the entries it appends, one per target that
  succeeded, and only the last invocation can have failed.
\<close>

definition backup_loop_spec ::
  "string list \<Rightarrow> backupInfo list \<Rightarrow> state \<Rightarrow> result \<Rightarrow> state \<Rightarrow> event list \<Rightarrow> backupRevision list \<Rightarrow> bool" where
  "backup_loop_spec testArgs bs st r st' new rows =
     (events st' = events st @ new \<and> steps new = [] \<and> copyTable st' = copyTable st \<and>
      backupTable st' = backupTable st @ rows \<and> length rows \<le> length bs \<and>
      map storage rows = map Name (take (length rows) bs) \<and>
      exec_results new = replicate (length rows) None @ (case r of ReturnErr err \<Rightarrow> [Some err] | _ \<Rightarrow> []) \<and>
      (r = ReturnNil \<longrightarrow> length rows = length bs) \<and>
      (r \<noteq> ReturnNil \<longrightarrow> length rows < length bs) \<and>
      (r = Panicked \<longrightarrow> testArgs = [''testbackup'']) \<and>
      (testArgs = [] \<longrightarrow> exec_args new = map (backup_cmdArgs []) (take (length (exec_results new)) bs)))"

text \<open>
  What is needed of the other runners: they add events that show no step, they leave the
  backup table alone (\<open>keep\<close>), and they panic on the one-element test list only.
\<close>

definition runner_spec :: "bool \<Rightarrow> string list \<Rightarrow> state \<Rightarrow> result \<Rightarrow> state \<Rightarrow> event list \<Rightarrow> bool" where
  "runner_spec keep testArgs st r st' new =
     (events st' = events st @ new \<and> steps new = [] \<and> (keep \<longrightarrow> backupTable st' = backupTable st) \<and>
      (r = Panicked \<longrightarrow> testArgs = [''testbackup'']))"

text \<open>
  The end of \<open>performBackup\<close>, after the four operations, and the pattern of one
  operation followed by the rest of the function. \<open>performBackup\<close> is equal to the
  nesting of the two (lemma \<open>performBackup_unfold\<close>).
\<close>

definition finish :: "env \<Rightarrow> nat \<Rightarrow> state \<Rightarrow> result \<times> state" where
  "finish en startTime st8 =
     (let st9 = emit [LoggerPrintln separator] st8;
          st10 = emit [LogMessage True (''Operations completed in ''
                    @ getTimeDiffString en startTime (now en (events st9)))] st9;
          err = notifyOfSuccess en (events st10) (backupTable st10) (copyTable st10)
      in (of_error err, emit [NotifyOfSuccess err] st10))"

definition stage ::
  "bool \<Rightarrow> opkind \<Rightarrow> (state \<Rightarrow> result \<times> state) \<Rightarrow> (state \<Rightarrow> result \<times> state) \<Rightarrow> state
     \<Rightarrow> result \<times> state" where
  "stage flag k runner cont st =
     (case (if flag then ran k (runner st) else (ReturnNil, st)) of
        (ReturnErr e, st') \<Rightarrow> (ReturnErr e, st')
      | (Panicked, st') \<Rightarrow> (Panicked, st')
      | (ReturnNil, st') \<Rightarrow> cont st')"

text \<open>
  \<open>run_ok ds ss r\<close>: of the steps \<open>ds\<close>, either all ran and returned nil and so does the
  run, or they ran up to one that returned \<open>r\<close>, not nil, and nothing ran after it.
\<close>

definition completed :: "step list \<Rightarrow> (step \<times> result) list" where
  "completed ds = map (\<lambda>s. (s, ReturnNil)) ds"

definition run_ok :: "step list \<Rightarrow> (step \<times> result) list \<Rightarrow> result \<Rightarrow> bool" where
  "run_ok ds ss r =
     ((r = ReturnNil \<and> ss = completed ds) \<or>
      (r \<noteq> ReturnNil \<and> (\<exists>ok s rest. ds = ok @ s # rest \<and> ss = completed ok @ [(s, r)])))"

definition cont_spec :: "bool \<Rightarrow> step list \<Rightarrow> state \<Rightarrow> result \<Rightarrow> state \<Rightarrow> bool" where
  "cont_spec keep ds st r st' =
     (\<exists>new. events st' = events st @ new \<and> (keep \<longrightarrow> backupTable st' = backupTable st) \<and> r \<noteq> Panicked \<and>
            run_ok ds (steps new) r)"

text \<open>
  The steps due after the backup step.
\<close>

definition after_backup :: "globals \<Rightarrow> step list" where
  "after_backup g =
     (if cmdCopy g then [RunOp OpCopy] else []) @ (if cmdPrune g then [RunOp OpPrune] else [])
       @ (if cmdCheck g then [RunOp OpCheck] else []) @ [NotifySuccess]"

text \<open>
  The events of \<open>performBackup\<close> before the first operation, when log rotation and the
  creation of the log file succeed.
\<close>

definition prologue :: "env \<Rightarrow> globals \<Rightarrow> state \<Rightarrow> event list" where
  "prologue en g st =
     [LogMessage False ''Rotating log files'', RotateLogFiles None,
      OsCreate (globalLogDir g) (cmdConfig g @ ''.log'') None,
      LogMessage True (''Beginning backup on '' @ formatNow en
         (events st @ [LogMessage False ''Rotating log files'', RotateLogFiles None,
                       OsCreate (globalLogDir g) (cmdConfig g @ ''.log'') None])),
      NotifyOfStart]"


fun runner :: "env \<Rightarrow> globals \<Rightarrow> opkind \<Rightarrow> state \<Rightarrow> result \<times> state" where
  "runner en g OpBackup st = performDuplicacyBackup en g [] st"
| "runner en g OpCopy st = performDuplicacyCopy en g [] st"
| "runner en g OpPrune st = performDuplicacyPrune en g [] st"
| "runner en g OpCheck st = performDuplicacyCheck en g [] st"






text \<open>
  What the validation loop of \<open>loadConfig\<close> does to one prune target.
\<close>

definition normalize_prune :: "pruneInfo \<Rightarrow> pruneInfo" where
  "normalize_prune p =
     (let p1 = (if Keep p = [] then p else p\<lparr>Keep := expand_keep (Keep p)\<rparr>)
      in if Threads_p p = [] then p1\<lparr>Threads_p := ''1''\<rparr> else p1)"

section \<open>Concrete configurations and collaborators\<close>

text \<open>
  A configuration file with one target of every kind but copy; the prune target gives
  \<open>storage\<close> and \<open>keep\<close> and nothing else. \<open>loaded_no_all\<close> is what
  \<open>loadConfig\<close> makes of it (lemma \<open>load_doc_no_all\<close>).
\<close>

definition doc_no_all :: yamlDoc where
  "doc_no_all =
     \<lparr>repository_y = Some ''/data'',
      storage_y = Some [\<lparr>name_y = Some ''b2'', threads_y = None, vss_y = None, vssTimeout_y = None, quote_y = None\<rparr>],
      copy_y = None,
      prune_y = Some [\<lparr>storage_py = Some ''b2'', keep_py = Some ''7 30 365'', threads_py = None,
                       all_py = None, quote_py = None\<rparr>],
      check_y = Some [\<lparr>storage_ky = Some ''b2'', all_ky = None, quote_ky = None\<rparr>]\<rparr>"

definition loaded_no_all :: configurationFile where
  "loaded_no_all =
      \<lparr>configFilename = ''test.yaml'', RepoDir = ''/data'',
       BackupInfo = [\<lparr>Name = ''b2'', Threads = ''1'', Vss = False, VssTimeout = [], Quote = []\<rparr>],
       CopyInfo = [],
       PruneInfo = [\<lparr>Storage = ''b2'', Keep = ''-keep 7 -keep 30 -keep 365'', Threads_p = ''1'',
                     All_p = False, Quote_p = []\<rparr>],
       CheckInfo = [\<lparr>Storage_k = ''b2'', All_k = False, Quote_k = []\<rparr>]\<rparr>"

text \<open>
  Collaborators that never fail, around a given executor; a backup target with one thread and
  no optional flag; global state with backup and copy requested, and with all four
  operations requested.
\<close>

definition quiet_env :: "(event list \<Rightarrow> string \<Rightarrow> string list \<Rightarrow> string \<Rightarrow> string list \<times> error option) \<Rightarrow> env" where
  "quiet_env ex =
     \<lparr>executor = ex, now = (\<lambda>ev. 0), formatNow = (\<lambda>ev. ''01-02-2006 15:04:05''),
      getTimeDiffString = (\<lambda>t0 t1. ''0 seconds''), rotateLogFiles = (\<lambda>ev. None),
      osCreate = (\<lambda>ev dir file. None), notifyOfSuccess = (\<lambda>ev bt ct. None)\<rparr>"

definition target :: "string \<Rightarrow> backupInfo" where
  "target n = \<lparr>Name = n, Threads = ''1'', Vss = False, VssTimeout = [], Quote = []\<rparr>"

definition globals_of :: "backupInfo list \<Rightarrow> copyInfo list \<Rightarrow> globals" where
  "globals_of bs cs =
     \<lparr>cmdBackup = True, cmdCopy = True, cmdPrune = False, cmdCheck = False, debugFlag = False,
      duplicacyPath = ''duplicacy'', globalLogDir = ''log'', cmdConfig = ''test'',
      configFile = \<lparr>configFilename = ''test.yaml'', RepoDir = ''/data'', BackupInfo = bs,
                    CopyInfo = cs, PruneInfo = [], CheckInfo = []\<rparr>\<rparr>"

definition globals_with :: "configurationFile \<Rightarrow> globals" where
  "globals_with config =
     \<lparr>cmdBackup = True, cmdCopy = True, cmdPrune = True, cmdCheck = True, debugFlag = False,
      duplicacyPath = ''duplicacy'', globalLogDir = ''log'', cmdConfig = ''test'',
      configFile = config\<rparr>"

definition empty_state :: state where
  "empty_state = \<lparr>backupTable = [], copyTable = [], events = []\<rparr>"

text \<open>
  Two executors. The first prints a \<open>Files:\<close> line for the target named
  \<open>first\<close> and nothing for any other, and never fails. The second fails for the target
  named \<open>second\<close>.
\<close>

definition files_once :: "event list \<Rightarrow> string \<Rightarrow> string list \<Rightarrow> string \<Rightarrow> string list \<times> error option" where
  "files_once ev path args dir =
     (if ''first'' \<in> set args then ([''Files: 1 total, 2 bytes; 3 new, 4 bytes''], None) else ([], None))"

definition fail_second :: "event list \<Rightarrow> string \<Rightarrow> string list \<Rightarrow> string \<Rightarrow> string list \<times> error option" where
  "fail_second ev path args dir =
     (if ''second'' \<in> set args then ([''Failed to upload''], Some (Error ''exit status 100''))
      else ([], None))"

definition three_targets :: globals where
  "three_targets = globals_of [target ''first'', target ''second'', target ''third''] []"

definition two_targets :: globals where
  "two_targets = globals_of [target ''first'', target ''second''] []"

definition quoted_targets :: globals where
  "quoted_targets =
     globals_of [\<lparr>Name = ''b2'', Threads = ''1'', Vss = False, VssTimeout = [], Quote = ''-limit-rate 100''\<rparr>]
                [\<lparr>From = ''b2'', To = ''s3'', Threads_c = ''1'', Quote_c = ''-bit-identical''\<rparr>]"

section \<open>The matcher\<close>

lemma first_down_Some_ex: "first_down f lo d = Some r \<Longrightarrow> \<exists>k. f k = Some r"
  by (induction d) (auto split: option.splits)

lemma first_down_pick:
  "k < d \<Longrightarrow> f (lo + k) = Some r \<Longrightarrow> (\<And>j. k < j \<Longrightarrow> j < d \<Longrightarrow> f (lo + j) = None)
     \<Longrightarrow> first_down f lo d = Some r"
proof (induction d)
  case 0
  then show ?case by simp
next
  case (Suc d)
  show ?case
  proof (cases "k = d")
    case True
    with Suc.prems show ?thesis by simp
  next
    case False
    with Suc.prems have kd: "k < d" by simp
    have "f (lo + d) = None" using Suc.prems(3)[of d] kd by simp
    moreover have "first_down f lo d = Some r"
      using Suc.IH[OF kd Suc.prems(2)] Suc.prems(3) by simp
    ultimately show ?thesis by simp
  qed
qed

lemma captures_Nil: "captures [] s []"
  by (simp add: captures_def)

lemma captures_Lit: "captures its rest gs \<Longrightarrow> captures (Lit l # its) (l @ rest) gs"
  by (auto simp: captures_def)

lemma takeWhile_token:
  "\<forall>c\<in>set t. P c \<Longrightarrow> rest = [] \<or> \<not> P (hd rest) \<Longrightarrow> takeWhile P (t @ rest) = t"
  by (cases rest) (auto simp: takeWhile_append2 takeWhile_eq_all_conv)

lemma captures_Cap:
  assumes "t \<noteq> []" "\<forall>c\<in>set t. in_class cl c" "rest = [] \<or> \<not> in_class cl (hd rest)"
    and "captures its rest gs"
  shows "captures (Cap cl # its) (t @ rest) (t # gs)"
proof -
  from assms(4) obtain n where n: "match_here its rest = Some (n, gs)"
    by (auto simp: captures_def)
  have tw: "takeWhile (in_class cl) (t @ rest) = t"
    using takeWhile_token[of t "in_class cl" rest] assms(2,3) by blast
  obtain d where d: "length t = Suc d" using assms(1) by (cases t) auto
  have "match_here (Cap cl # its) (t @ rest) = Some (length t + n, t # gs)"
    using n by (simp add: tw d)
  then show ?thesis by (auto simp: captures_def)
qed

lemma spaces_append: "spaces (a @ b) = spaces a + spaces b"
  by (simp add: spaces_def)

lemma spaces_Cons: "spaces (x # s) = (if x = CHR '' '' then 1 else 0) + spaces s"
  by (simp add: spaces_def)

lemma spaces_Nil: "spaces [] = 0"
  by (simp add: spaces_def)

lemma spaces_drop: "spaces (drop k s) \<le> spaces s"
proof -
  have "spaces s = spaces (take k s) + spaces (drop k s)"
    by (metis append_take_drop_id spaces_append)
  then show ?thesis by simp
qed

lemma match_needs_spaces: "match_here its s = Some r \<Longrightarrow> lit_spaces its \<le> spaces s"
proof (induction its arbitrary: s r)
  case Nil
  then show ?case by simp
next
  case (Cons it its)
  show ?case
  proof (cases it)
    case (Lit l)
    with Cons.prems have tk: "take (length l) s = l"
      and "\<exists>r'. match_here its (drop (length l) s) = Some r'"
      by (auto split: if_splits)
    then obtain r' where "match_here its (drop (length l) s) = Some r'" by blast
    then have "lit_spaces its \<le> spaces (drop (length l) s)" by (rule Cons.IH)
    moreover have "spaces s = spaces l + spaces (drop (length l) s)"
      by (metis tk append_take_drop_id spaces_append)
    ultimately show ?thesis using Lit by simp
  next
    case (Star c)
    with Cons.prems have "first_down
           (\<lambda>k. map_option (\<lambda>(n, gs). (k + n, gs)) (match_here its (drop k s)))
           0 (Suc (length (takeWhile (in_class c) s))) = Some r"
      by (simp del: first_down.simps)
    then obtain k where "map_option (\<lambda>(n, gs). (k + n, gs)) (match_here its (drop k s)) = Some r"
      by (blast dest: first_down_Some_ex)
    then obtain r' where "match_here its (drop k s) = Some r'" by auto
    then have "lit_spaces its \<le> spaces (drop k s)" by (rule Cons.IH)
    then show ?thesis using Star spaces_drop[of k s] by simp
  next
    case (Cap c)
    with Cons.prems have "first_down
           (\<lambda>k. map_option (\<lambda>(n, gs). (k + n, take k s # gs)) (match_here its (drop k s)))
           1 (length (takeWhile (in_class c) s)) = Some r"
      by (simp del: first_down.simps)
    then obtain k where "map_option (\<lambda>(n, gs). (k + n, take k s # gs)) (match_here its (drop k s)) = Some r"
      by (blast dest: first_down_Some_ex)
    then obtain r' where "match_here its (drop k s) = Some r'" by auto
    then have "lit_spaces its \<le> spaces (drop k s)" by (rule Cons.IH)
    then show ?thesis using Cap spaces_drop[of k s] by simp
  qed
qed

lemma match_here_groups: "match_here its s = Some (n, gs) \<Longrightarrow> length gs = ncaps its"
proof (induction its arbitrary: s n gs)
  case Nil
  then show ?case by simp
next
  case (Cons it its)
  show ?case
  proof (cases it)
    case (Lit l)
    with Cons.prems obtain n' where "match_here its (drop (length l) s) = Some (n', gs)"
      by (auto split: if_splits)
    then show ?thesis using Cons.IH Lit by simp
  next
    case (Star c)
    with Cons.prems have "first_down
           (\<lambda>k. map_option (\<lambda>(n, gs). (k + n, gs)) (match_here its (drop k s)))
           0 (Suc (length (takeWhile (in_class c) s))) = Some (n, gs)"
      by (simp del: first_down.simps)
    then obtain k where "map_option (\<lambda>(n, gs). (k + n, gs)) (match_here its (drop k s)) = Some (n, gs)"
      by (blast dest: first_down_Some_ex)
    then obtain n' where "match_here its (drop k s) = Some (n', gs)" by auto
    then show ?thesis using Cons.IH Star by simp
  next
    case (Cap c)
    with Cons.prems have "first_down
           (\<lambda>k. map_option (\<lambda>(n, gs). (k + n, take k s # gs)) (match_here its (drop k s)))
           1 (length (takeWhile (in_class c) s)) = Some (n, gs)"
      by (simp del: first_down.simps)
    then obtain k where "map_option (\<lambda>(n, gs). (k + n, take k s # gs)) (match_here its (drop k s)) = Some (n, gs)"
      by (blast dest: first_down_Some_ex)
    then obtain n' gs' where "match_here its (drop k s) = Some (n', gs')" "gs = take k s # gs'" by auto
    then show ?thesis using Cons.IH Cap by simp
  qed
qed

lemma FindStringSubmatch_length:
  "FindStringSubmatch re s = [] \<or> length (FindStringSubmatch re s) = Suc (ncaps re)"
proof (induction re s rule: FindStringSubmatch.induct)
  case (1 re s)
  show ?case
  proof (cases "match_here re s")
    case None
    then have eq: "FindStringSubmatch re s = (case s of [] \<Rightarrow> [] | c # s' \<Rightarrow> FindStringSubmatch re s')"
      by (subst FindStringSubmatch.simps) simp
    show ?thesis
    proof (cases s)
      case Nil
      then show ?thesis using eq by simp
    next
      case (Cons c s')
      then show ?thesis using eq 1[OF None Cons] by simp
    qed
  next
    case (Some r)
    obtain n gs where r: "r = (n, gs)" by (cases r)
    have "FindStringSubmatch re s = take n s # gs"
      using Some r by (subst FindStringSubmatch.simps) simp
    then show ?thesis using match_here_groups[of re s n gs] Some r by simp
  qed
qed

lemma files_elements_length:
  "length (FindStringSubmatch files_re s) = 0 \<or> length (FindStringSubmatch files_re s) = 5"
  using FindStringSubmatch_length[of files_re s] by (auto simp: files_re_def)

lemma chunks_elements_length:
  "length (FindStringSubmatch chunks_re s) = 0 \<or> length (FindStringSubmatch chunks_re s) = 6"
  using FindStringSubmatch_length[of chunks_re s] by (auto simp: chunks_re_def)

lemma copy_elements_length:
  "length (FindStringSubmatch copy_re s) = 0 \<or> length (FindStringSubmatch copy_re s) = 4"
  using FindStringSubmatch_length[of copy_re s] by (auto simp: copy_re_def)

lemma drop_prefix: "length p \<le> j \<Longrightarrow> drop j (p @ t) = drop (j - length p) t"
  by simp

lemma token_spaces: "token t \<Longrightarrow> spaces t = 0"
  by (auto simp: token_def spaces_def list_all_iff filter_empty_conv)

lemma token_captured:
  "token t \<Longrightarrow> captures its (CHR '' '' # rest) gs
     \<Longrightarrow> captures (Cap NonSpace # its) (t @ CHR '' '' # rest) (t # gs)"
  by (rule captures_Cap) (auto simp: token_def list_all_iff)

lemma files_tail_captures:
  assumes "token a" "token b" "token c" "token d"
  shows "captures files_tail
           ('': '' @ a @ '' total, '' @ b @ '' bytes; '' @ c @ '' new, '' @ d @ '' bytes'')
           [a, b, c, d]"
proof -
  have 1: "captures [Lit '' bytes''] ('' bytes'') []"
    using captures_Lit[OF captures_Nil, of "'' bytes''" "[]"] by simp
  have 2: "captures [Cap NonSpace, Lit '' bytes''] (d @ '' bytes'') [d]"
    using token_captured[OF assms(4), of "[Lit '' bytes'']" "''bytes''" "[]"] 1 by simp
  have 3: "captures [Lit '' new, '', Cap NonSpace, Lit '' bytes''] ('' new, '' @ d @ '' bytes'') [d]"
    using captures_Lit[OF 2, of "'' new, ''"] by simp
  have 4: "captures [Cap NonSpace, Lit '' new, '', Cap NonSpace, Lit '' bytes'']
             (c @ '' new, '' @ d @ '' bytes'') [c, d]"
    using token_captured[OF assms(3), of _ "''new, '' @ d @ '' bytes''" "[d]"] 3 by simp
  have 5: "captures [Lit '' bytes; '', Cap NonSpace, Lit '' new, '', Cap NonSpace, Lit '' bytes'']
             ('' bytes; '' @ c @ '' new, '' @ d @ '' bytes'') [c, d]"
    using captures_Lit[OF 4, of "'' bytes; ''"] by simp
  have 6: "captures [Cap NonSpace, Lit '' bytes; '', Cap NonSpace, Lit '' new, '', Cap NonSpace, Lit '' bytes'']
             (b @ '' bytes; '' @ c @ '' new, '' @ d @ '' bytes'') [b, c, d]"
    using token_captured[OF assms(2), of _ "''bytes; '' @ c @ '' new, '' @ d @ '' bytes''" "[c, d]"] 5 by simp
  have 7: "captures [Lit '' total, '', Cap NonSpace, Lit '' bytes; '', Cap NonSpace, Lit '' new, '', Cap NonSpace, Lit '' bytes'']
             ('' total, '' @ b @ '' bytes; '' @ c @ '' new, '' @ d @ '' bytes'') [b, c, d]"
    using captures_Lit[OF 6, of "'' total, ''"] by simp
  have 8: "captures [Cap NonSpace, Lit '' total, '', Cap NonSpace, Lit '' bytes; '', Cap NonSpace, Lit '' new, '', Cap NonSpace, Lit '' bytes'']
             (a @ '' total, '' @ b @ '' bytes; '' @ c @ '' new, '' @ d @ '' bytes'') [a, b, c, d]"
    using token_captured[OF assms(1), of _ "''total, '' @ b @ '' bytes; '' @ c @ '' new, '' @ d @ '' bytes''" "[b, c, d]"] 7 by simp
  show ?thesis
    unfolding files_tail_def using captures_Lit[OF 8, of "'': ''"] by simp
qed

lemma files_line_match:
  assumes "token a" "token b" "token c" "token d"
  defines "line \<equiv> ''Files: '' @ a @ '' total, '' @ b @ '' bytes; '' @ c @ '' new, '' @ d @ '' bytes''"
  shows "\<exists>n. match_here files_re line = Some (n, [a, b, c, d])"
proof -
  let ?tail = "a @ '' total, '' @ b @ '' bytes; '' @ c @ '' new, '' @ d @ '' bytes''"
  let ?f = "\<lambda>k. map_option (\<lambda>(n, gs). (k + n, gs)) (match_here files_tail (drop k line))"
  let ?m = "length (takeWhile (in_class AnyChar) line)"
  have sp: "spaces ?tail = 7"
    using assms(1-4) by (simp add: spaces_append spaces_Cons spaces_Nil token_spaces)
  have ls: "lit_spaces files_tail = 8"
    by (simp add: files_tail_def spaces_Cons spaces_Nil)
  from files_tail_captures[OF assms(1-4)]
  obtain n where n: "match_here files_tail ('': '' @ ?tail) = Some (n, [a, b, c, d])"
    by (auto simp: captures_def)
  have d5: "drop 5 line = '': '' @ ?tail" by (simp add: line_def)
  have f5: "?f (0 + 5) = Some (5 + n, [a, b, c, d])"
    using n d5 by simp
  have m5: "5 < Suc ?m" by (simp add: line_def)
  have none: "?f (0 + j) = None" if "5 < j" for j
  proof (cases "j = 6")
    case True
    then show ?thesis by (simp add: line_def files_tail_def)
  next
    case False
    with that have "7 \<le> j" by simp
    then have "drop j line = drop (j - length ''Files: '') ?tail"
      unfolding line_def by (intro drop_prefix) simp
    then have "spaces (drop j line) \<le> 7"
      using spaces_drop[of "j - length ''Files: ''" ?tail] sp by (simp del: length_Cons)
    then have "match_here files_tail (drop j line) = None"
      using match_needs_spaces[of files_tail "drop j line"] ls by (cases "match_here files_tail (drop j line)") auto
    then show ?thesis by simp
  qed
  have "first_down ?f 0 (Suc ?m) = Some (5 + n, [a, b, c, d])"
    using first_down_pick[of 5 "Suc ?m" ?f 0, OF m5 f5] none by simp
  then have "match_here files_re line = Some (5 + n, [a, b, c, d])"
    by (simp add: files_re_def files_tail_def del: first_down.simps)
  then show ?thesis by blast
qed

lemma files_line_elements:
  assumes "token a" "token b" "token c" "token d"
  defines "line \<equiv> ''Files: '' @ a @ '' total, '' @ b @ '' bytes; '' @ c @ '' new, '' @ d @ '' bytes''"
  shows "\<exists>w. FindStringSubmatch files_re line = [w, a, b, c, d]"
proof -
  from files_line_match[OF assms(1-4)] obtain n
    where "match_here files_re line = Some (n, [a, b, c, d])" by (auto simp: line_def)
  then have "FindStringSubmatch files_re line = [take n line, a, b, c, d]"
    by (subst FindStringSubmatch.simps) simp
  then show ?thesis by blast
qed

section \<open>Traces of the runners\<close>

lemma exec_results_append: "exec_results (xs @ ys) = exec_results xs @ exec_results ys"
  by (induction xs rule: exec_results.induct) auto

lemma exec_args_append: "exec_args (xs @ ys) = exec_args xs @ exec_args ys"
  by (induction xs rule: exec_args.induct) auto

lemma steps_append: "steps (xs @ ys) = steps xs @ steps ys"
  by (induction xs rule: steps.induct) auto

lemma quiet_Nil: "quiet []"
  by (simp add: quiet_def)

lemma quiet_append: "quiet xs \<Longrightarrow> quiet ys \<Longrightarrow> quiet (xs @ ys)"
  by (simp add: quiet_def steps_append exec_results_append exec_args_append)

lemma backupLogger_quiet:
  "\<exists>new. snd (backupLogger line (e, ev)) = ev @ new \<and> quiet new"
  by (simp add: backupLogger_def Let_def quiet_def)

lemma fold_backupLogger_quiet:
  "\<exists>new. snd (fold backupLogger lines (e, ev)) = ev @ new \<and> quiet new"
proof (induction lines arbitrary: e ev)
  case Nil
  show ?case by (simp add: quiet_Nil)
next
  case (Cons line lines)
  obtain e1 ev1 where s1: "backupLogger line (e, ev) = (e1, ev1)" by (cases "backupLogger line (e, ev)")
  from backupLogger_quiet[of line e ev] s1 obtain n1 where n1: "ev1 = ev @ n1" "quiet n1" by auto
  from Cons.IH[of e1 ev1] obtain n2 where n2: "snd (fold backupLogger lines (e1, ev1)) = ev1 @ n2" "quiet n2"
    by blast
  have "snd (fold backupLogger (line # lines) (e, ev)) = ev @ (n1 @ n2)"
    using s1 n1 n2 by simp
  then show ?case using quiet_append[OF n1(2) n2(2)] by blast
qed

lemma copyLogger_quiet:
  "\<exists>new. snd (copyLogger line (e, ev)) = ev @ new \<and> quiet new"
  by (simp add: copyLogger_def Let_def quiet_def)

lemma fold_copyLogger_quiet:
  "\<exists>new. snd (fold copyLogger lines (e, ev)) = ev @ new \<and> quiet new"
proof (induction lines arbitrary: e ev)
  case Nil
  show ?case by (simp add: quiet_Nil)
next
  case (Cons line lines)
  obtain e1 ev1 where s1: "copyLogger line (e, ev) = (e1, ev1)" by (cases "copyLogger line (e, ev)")
  from copyLogger_quiet[of line e ev] s1 obtain n1 where n1: "ev1 = ev @ n1" "quiet n1" by auto
  from Cons.IH[of e1 ev1] obtain n2 where n2: "snd (fold copyLogger lines (e1, ev1)) = ev1 @ n2" "quiet n2"
    by blast
  have "snd (fold copyLogger (line # lines) (e, ev)) = ev @ (n1 @ n2)"
    using s1 n1 n2 by simp
  then show ?case using quiet_append[OF n1(2) n2(2)] by blast
qed

lemma fold_anon_quiet: "\<exists>new. fold anon lines ev = ev @ new \<and> quiet new"
proof (induction lines arbitrary: ev)
  case Nil
  show ?case by (simp add: quiet_Nil)
next
  case (Cons line lines)
  from Cons.IH[of "anon line ev"] obtain n2 where n2: "fold anon lines (anon line ev) = anon line ev @ n2" "quiet n2"
    by blast
  have q1: "quiet [LoggerPrintln line]" by (simp add: quiet_def)
  have "fold anon (line # lines) ev = ev @ ([LoggerPrintln line] @ n2)"
    using n2 by (simp add: anon_def)
  then show ?case using quiet_append[OF q1 n2(2)] by blast
qed

lemma test_cmdArgs_None: "test_cmdArgs testArgs tag i = None \<longleftrightarrow> testArgs = [''testbackup'']"
proof (cases testArgs)
  case Nil
  then show ?thesis by (simp add: test_cmdArgs_def)
next
  case (Cons x xs)
  then show ?thesis by (cases xs) (auto simp: test_cmdArgs_def)
qed

lemma test_cmdArgs_Nil: "test_cmdArgs [] tag i = Some []"
  by (simp add: test_cmdArgs_def)

lemma backup_target_trace:
  assumes "backup_target en g testArgs i b e st = (r, e', st')"
  shows "\<exists>new. backup_target_spec testArgs b st r e' st' new"
proof (cases "test_cmdArgs testArgs ''_backup'' i")
  case None
  then have "testArgs = [''testbackup'']" by (simp add: test_cmdArgs_None)
  with assms None show ?thesis
    by (auto simp: backup_target_def Let_def emit_def backup_target_spec_def)
next
  case (Some cmdArgs0)
  have c0: "testArgs = [] \<Longrightarrow> cmdArgs0 = []" using Some by (simp add: test_cmdArgs_def)
  define cmdArgs where "cmdArgs = backup_cmdArgs cmdArgs0 b"
  define pre where "pre = [LoggerPrintln separator] @
                   ([Printf (''BACKUP: {'' @ Name b @ '' '' @ Threads b @ '' ''
                             @ show_bool (Vss b) @ '' '' @ VssTimeout b @ '' ''
                             @ Quote b @ ''}'' @ [CHR 0x0A]),
                     LogMessage True (''Backing up to storage '' @ Name b
                             @ backup_vssFlags b @ '' with '' @ Threads b
                             @ '' threads'' @ Quote b)]
                    @ (if debugFlag g
                       then [LogMessage True (''Executing: '' @ duplicacyPath g @ show_strings cmdArgs)]
                       else []))"
  have qpre: "quiet pre" by (simp add: pre_def quiet_def)
  obtain lines err where ex: "executor en (events st @ pre) (duplicacyPath g) cmdArgs (RepoDir (configFile g)) = (lines, err)"
    by (cases "executor en (events st @ pre) (duplicacyPath g) cmdArgs (RepoDir (configFile g))")
  define ev3 where "ev3 = events st @ pre @ [Exec (duplicacyPath g) cmdArgs (RepoDir (configFile g)) err]"
  obtain e1 ev where fo: "fold backupLogger lines (e, ev3) = (e1, ev)"
    by (cases "fold backupLogger lines (e, ev3)")
  from fold_backupLogger_quiet[of lines e ev3] fo obtain n where n: "ev = ev3 @ n" "quiet n" by auto
  show ?thesis
  proof (cases err)
    case None
    have "backup_target en g testArgs i b e st =
            (ReturnNil,
             e1\<lparr>storage := Name b, duration := (if hd cmdArgs = ''testbackup'' then ''x seconds''
                            else getTimeDiffString en (now en (events st)) (now en ev))\<rparr>,
             st\<lparr>events := ev @ [LogMessage True (''  Duration: '' @ (if hd cmdArgs = ''testbackup'' then ''x seconds''
                            else getTimeDiffString en (now en (events st)) (now en ev)))],
                backupTable := backupTable st @ [e1\<lparr>storage := Name b, duration := (if hd cmdArgs = ''testbackup'' then ''x seconds''
                            else getTimeDiffString en (now en (events st)) (now en ev))\<rparr>]\<rparr>)"
      using Some ex fo None
      by (simp add: backup_target_def Let_def emit_def cmdArgs_def[symmetric] pre_def ev3_def)
    with assms have r: "r = ReturnNil" and e': "storage e' = Name b"
      and st': "events st' = ev @ [LogMessage True (''  Duration: '' @ duration e')]"
               "backupTable st' = backupTable st @ [e']" "copyTable st' = copyTable st"
      by auto
    define new where "new = pre @ [Exec (duplicacyPath g) cmdArgs (RepoDir (configFile g)) None] @ n @ [LogMessage True (''  Duration: '' @ duration e')]"
    have a: "events st' = events st @ new" using st'(1) n(1) None by (simp add: ev3_def new_def)
    have b: "steps new = []" "exec_results new = [None]" "exec_args new = [cmdArgs]"
      using qpre n(2) by (simp_all add: new_def quiet_def steps_append exec_results_append exec_args_append)
    have c: "testArgs = [] \<longrightarrow> exec_args new = [backup_cmdArgs [] b]"
      using b(3) c0 by (simp add: cmdArgs_def)
    have "backup_target_spec testArgs b st r e' st' new"
      unfolding backup_target_spec_def using a b(1,2) c r e' st'(2,3) by simp
    then show ?thesis by blast
  next
    case (Some err')
    have "backup_target en g testArgs i b e st =
            (ReturnErr err', e1, st\<lparr>events := ev @ [LogError True (''Error executing command: '' @ error_text err')]\<rparr>)"
      using \<open>test_cmdArgs testArgs ''_backup'' i = Some cmdArgs0\<close> ex fo Some
      by (simp add: backup_target_def Let_def emit_def cmdArgs_def[symmetric] pre_def ev3_def)
    with assms have r: "r = ReturnErr err'"
      and st': "events st' = ev @ [LogError True (''Error executing command: '' @ error_text err')]"
               "backupTable st' = backupTable st" "copyTable st' = copyTable st"
      by auto
    define new where "new = pre @ [Exec (duplicacyPath g) cmdArgs (RepoDir (configFile g)) (Some err')] @ n @ [LogError True (''Error executing command: '' @ error_text err')]"
    have a: "events st' = events st @ new" using st'(1) n(1) Some by (simp add: ev3_def new_def)
    have b: "steps new = []" "exec_results new = [Some err']" "exec_args new = [cmdArgs]"
      using qpre n(2) by (simp_all add: new_def quiet_def steps_append exec_results_append exec_args_append)
    have c: "testArgs = [] \<longrightarrow> exec_args new = [backup_cmdArgs [] b]"
      using b(3) c0 by (simp add: cmdArgs_def)
    have "backup_target_spec testArgs b st r e' st' new"
      unfolding backup_target_spec_def using a b(1,2) c r st'(2,3) by simp
    then show ?thesis by blast
  qed
qed

lemma backup_loop_trace:
  "backup_loop en g testArgs i bs e st = (r, st') \<Longrightarrow> \<exists>new rows. backup_loop_spec testArgs bs st r st' new rows"
proof (induction bs arbitrary: i e st)
  case Nil
  then have "backup_loop_spec testArgs [] st r st' [] []"
    by (auto simp: backup_loop_spec_def)
  then show ?case by blast
next
  case (Cons b bs)
  obtain r1 e1 st1 where t: "backup_target en g testArgs i b e st = (r1, e1, st1)"
    by (cases "backup_target en g testArgs i b e st")
  from backup_target_trace[OF t] obtain new1 where s1: "backup_target_spec testArgs b st r1 e1 st1 new1"
    by blast
  show ?case
  proof (cases "r1 = ReturnNil")
    case True
    with Cons.prems t have "backup_loop en g testArgs (i + 1) bs e1 st1 = (r, st')" by simp
    from Cons.IH[OF this] obtain new2 rows2 where s2: "backup_loop_spec testArgs bs st1 r st' new2 rows2"
      by blast
    have "backup_loop_spec testArgs (b # bs) st r st' (new1 @ new2) (e1 # rows2)"
      using s1 s2 True
      by (auto simp: backup_loop_spec_def backup_target_spec_def steps_append exec_results_append
            exec_args_append split: result.splits)
    then show ?thesis by blast
  next
    case False
    with Cons.prems t have "r = r1" "st' = st1" by (cases r1; simp)+
    then have "backup_loop_spec testArgs (b # bs) st r st' new1 []"
      using s1 False
      by (auto simp: backup_loop_spec_def backup_target_spec_def split: result.splits)
    then show ?thesis by blast
  qed
qed

lemma runner_spec_refl: "runner_spec keep testArgs st ReturnNil st []"
  by (simp add: runner_spec_def)

lemma runner_spec_trans:
  "runner_spec True testArgs st ReturnNil st1 new1 \<Longrightarrow> runner_spec True testArgs st1 r st' new2
     \<Longrightarrow> runner_spec True testArgs st r st' (new1 @ new2)"
  by (simp add: runner_spec_def steps_append)

lemma copy_target_trace:
  assumes "copy_target en g testArgs i c e st = (r, e', st')"
  shows "\<exists>new. runner_spec True testArgs st r st' new"
proof (cases "test_cmdArgs testArgs ''_copy'' i")
  case None
  then have "testArgs = [''testbackup'']" by (simp add: test_cmdArgs_None)
  with assms None have "runner_spec True testArgs st r st' [LoggerPrintln separator]"
    by (auto simp: copy_target_def Let_def emit_def runner_spec_def)
  then show ?thesis by blast
next
  case (Some cmdArgs0)
  then have np: "testArgs \<noteq> [''testbackup'']" using test_cmdArgs_None[of testArgs "''_copy''" i] by auto
  define cmdArgs where "cmdArgs = copy_cmdArgs cmdArgs0 c"
  define pre where "pre = [LoggerPrintln separator] @
                   ([LogMessage True (''Copying from storage '' @ From c @ '' to storage ''
                             @ To c @ '' with '' @ Threads_c c @ '' threads''
                             @ Quote_c c)]
                    @ (if debugFlag g
                       then [LogMessage True (''Executing: '' @ duplicacyPath g @ show_strings cmdArgs)]
                       else []))"
  have qpre: "steps pre = []" by (simp add: pre_def)
  obtain lines err where ex: "executor en (events st @ pre) (duplicacyPath g) cmdArgs (RepoDir (configFile g)) = (lines, err)"
    by (cases "executor en (events st @ pre) (duplicacyPath g) cmdArgs (RepoDir (configFile g))")
  define ev3 where "ev3 = events st @ pre @ [Exec (duplicacyPath g) cmdArgs (RepoDir (configFile g)) err]"
  obtain e1 ev where fo: "fold copyLogger lines (e, ev3) = (e1, ev)"
    by (cases "fold copyLogger lines (e, ev3)")
  from fold_copyLogger_quiet[of lines e ev3] fo obtain n where n: "ev = ev3 @ n" "quiet n" by auto
  have "\<exists>tl. events st' = ev @ tl \<and> steps tl = [] \<and> backupTable st' = backupTable st \<and> r \<noteq> Panicked"
    using assms Some ex fo
    by (cases err) (auto simp: copy_target_def Let_def emit_def cmdArgs_def[symmetric] pre_def ev3_def)
  then obtain tl where tl: "events st' = ev @ tl" "steps tl = []" "backupTable st' = backupTable st" "r \<noteq> Panicked"
    by blast
  have "runner_spec True testArgs st r st' (pre @ [Exec (duplicacyPath g) cmdArgs (RepoDir (configFile g)) err] @ n @ tl)"
    using tl n qpre by (simp add: runner_spec_def ev3_def steps_append quiet_def)
  then show ?thesis by blast
qed

lemma copy_loop_trace:
  "copy_loop en g testArgs i cs e st = (r, st') \<Longrightarrow> \<exists>new. runner_spec True testArgs st r st' new"
proof (induction cs arbitrary: i e st)
  case Nil
  then show ?case using runner_spec_refl by auto
next
  case (Cons c cs)
  obtain r1 e1 st1 where t: "copy_target en g testArgs i c e st = (r1, e1, st1)"
    by (cases "copy_target en g testArgs i c e st")
  from copy_target_trace[OF t] obtain new1 where s1: "runner_spec True testArgs st r1 st1 new1" by blast
  show ?case
  proof (cases "r1 = ReturnNil")
    case True
    with Cons.prems t have "copy_loop en g testArgs (i + 1) cs e1 st1 = (r, st')" by simp
    from Cons.IH[OF this] obtain new2 where "runner_spec True testArgs st1 r st' new2" by blast
    then show ?thesis using runner_spec_trans[of testArgs st st1 new1 r st' new2] s1 True by blast
  next
    case False
    with Cons.prems t have "r = r1" "st' = st1" by (cases r1; simp)+
    then show ?thesis using s1 by blast
  qed
qed

lemma prune_target_trace:
  assumes "prune_target en g testArgs i p st = (r, st')"
  shows "\<exists>new. runner_spec True testArgs st r st' new"
proof (cases "test_cmdArgs testArgs ''_prune'' i")
  case None
  then have "testArgs = [''testbackup'']" by (simp add: test_cmdArgs_None)
  with assms None have "runner_spec True testArgs st r st' [LoggerPrintln separator]"
    by (auto simp: prune_target_def Let_def emit_def runner_spec_def)
  then show ?thesis by blast
next
  case (Some cmdArgs0)
  define cmdArgs where "cmdArgs = prune_cmdArgs testArgs p"
  define pre where "pre = [LoggerPrintln separator] @
                   ([LogMessage True (''Pruning storage '' @ Storage p @ '' using ''
                             @ Threads_p p @ '' thread(s)''
                             @ (if All_p p then '' -all'' else [])
                             @ Quote_p p)]
                    @ (if debugFlag g
                       then [LogMessage True (''Executing: '' @ duplicacyPath g @ show_strings cmdArgs)]
                       else []))"
  have qpre: "steps pre = []" by (simp add: pre_def)
  obtain lines err where ex: "executor en (events st @ pre) (duplicacyPath g) cmdArgs (RepoDir (configFile g)) = (lines, err)"
    by (cases "executor en (events st @ pre) (duplicacyPath g) cmdArgs (RepoDir (configFile g))")
  define ev3 where "ev3 = events st @ pre @ [Exec (duplicacyPath g) cmdArgs (RepoDir (configFile g)) err]"
  from fold_anon_quiet[of lines ev3] obtain n where n: "fold anon lines ev3 = ev3 @ n" "quiet n" by auto
  have "\<exists>tl. events st' = ev3 @ n @ tl \<and> steps tl = [] \<and> backupTable st' = backupTable st \<and> r \<noteq> Panicked"
    using assms Some ex n(1)
    by (cases err) (auto simp: prune_target_def Let_def emit_def cmdArgs_def[symmetric] pre_def ev3_def)
  then obtain tl where tl: "events st' = ev3 @ n @ tl" "steps tl = []" "backupTable st' = backupTable st" "r \<noteq> Panicked"
    by blast
  have "runner_spec True testArgs st r st' (pre @ [Exec (duplicacyPath g) cmdArgs (RepoDir (configFile g)) err] @ n @ tl)"
    using tl n qpre by (simp add: runner_spec_def ev3_def steps_append quiet_def)
  then show ?thesis by blast
qed

lemma prune_loop_trace:
  "prune_loop en g testArgs i ps st = (r, st') \<Longrightarrow> \<exists>new. runner_spec True testArgs st r st' new"
proof (induction ps arbitrary: i st)
  case Nil
  then show ?case using runner_spec_refl by auto
next
  case (Cons p ps)
  obtain r1 st1 where t: "prune_target en g testArgs i p st = (r1, st1)"
    by (cases "prune_target en g testArgs i p st")
  from prune_target_trace[OF t] obtain new1 where s1: "runner_spec True testArgs st r1 st1 new1" by blast
  show ?case
  proof (cases "r1 = ReturnNil")
    case True
    with Cons.prems t have "prune_loop en g testArgs (i + 1) ps st1 = (r, st')" by simp
    from Cons.IH[OF this] obtain new2 where "runner_spec True testArgs st1 r st' new2" by blast
    then show ?thesis using runner_spec_trans[of testArgs st st1 new1 r st' new2] s1 True by blast
  next
    case False
    with Cons.prems t have "r = r1" "st' = st1" by (cases r1; simp)+
    then show ?thesis using s1 by blast
  qed
qed

lemma check_target_trace:
  assumes "check_target en g testArgs i c st = (r, st')"
  shows "\<exists>new. runner_spec True testArgs st r st' new"
proof (cases "test_cmdArgs testArgs ''_check'' i")
  case None
  then have "testArgs = [''testbackup'']" by (simp add: test_cmdArgs_None)
  with assms None have "runner_spec True testArgs st r st' [LoggerPrintln separator]"
    by (auto simp: check_target_def Let_def emit_def runner_spec_def)
  then show ?thesis by blast
next
  case (Some cmdArgs0)
  define cmdArgs where "cmdArgs = check_cmdArgs cmdArgs0 c"
  define pre where "pre = [LoggerPrintln separator] @
                   ([LogMessage True (''Checking storage '' @ Storage_k c
                             @ (if All_k c then '' with -all'' else [])
                             @ Quote_k c)]
                    @ (if debugFlag g
                       then [LogMessage True (''Executing: '' @ duplicacyPath g @ show_strings cmdArgs)]
                       else []))"
  have qpre: "steps pre = []" by (simp add: pre_def)
  obtain lines err where ex: "executor en (events st @ pre) (duplicacyPath g) cmdArgs (RepoDir (configFile g)) = (lines, err)"
    by (cases "executor en (events st @ pre) (duplicacyPath g) cmdArgs (RepoDir (configFile g))")
  define ev3 where "ev3 = events st @ pre @ [Exec (duplicacyPath g) cmdArgs (RepoDir (configFile g)) err]"
  from fold_anon_quiet[of lines ev3] obtain n where n: "fold anon lines ev3 = ev3 @ n" "quiet n" by auto
  have "\<exists>tl. events st' = ev3 @ n @ tl \<and> steps tl = [] \<and> backupTable st' = backupTable st \<and> r \<noteq> Panicked"
    using assms Some ex n(1)
    by (cases err) (auto simp: check_target_def Let_def emit_def cmdArgs_def[symmetric] pre_def ev3_def)
  then obtain tl where tl: "events st' = ev3 @ n @ tl" "steps tl = []" "backupTable st' = backupTable st" "r \<noteq> Panicked"
    by blast
  have "runner_spec True testArgs st r st' (pre @ [Exec (duplicacyPath g) cmdArgs (RepoDir (configFile g)) err] @ n @ tl)"
    using tl n qpre by (simp add: runner_spec_def ev3_def steps_append quiet_def)
  then show ?thesis by blast
qed

lemma check_loop_trace:
  "check_loop en g testArgs i cs st = (r, st') \<Longrightarrow> \<exists>new. runner_spec True testArgs st r st' new"
proof (induction cs arbitrary: i st)
  case Nil
  then show ?case using runner_spec_refl by auto
next
  case (Cons c cs)
  obtain r1 st1 where t: "check_target en g testArgs i c st = (r1, st1)"
    by (cases "check_target en g testArgs i c st")
  from check_target_trace[OF t] obtain new1 where s1: "runner_spec True testArgs st r1 st1 new1" by blast
  show ?case
  proof (cases "r1 = ReturnNil")
    case True
    with Cons.prems t have "check_loop en g testArgs (i + 1) cs st1 = (r, st')" by simp
    from Cons.IH[OF this] obtain new2 where "runner_spec True testArgs st1 r st' new2" by blast
    then show ?thesis using runner_spec_trans[of testArgs st st1 new1 r st' new2] s1 True by blast
  next
    case False
    with Cons.prems t have "r = r1" "st' = st1" by (cases r1; simp)+
    then show ?thesis using s1 by blast
  qed
qed

section \<open>The trace of the orchestrator\<close>

lemma performBackup_unfold:
  "performBackup en g st =
     (let st1 = emit [LogMessage False ''Rotating log files''] st;
          rot = rotateLogFiles en (events st1);
          st2 = emit [RotateLogFiles rot] st1
      in case rot of
           Some e \<Rightarrow> (ReturnErr e, st2)
         | None \<Rightarrow>
            (let cr = osCreate en (events st2) (globalLogDir g) (cmdConfig g @ ''.log'');
                 st3 = emit [OsCreate (globalLogDir g) (cmdConfig g @ ''.log'') cr] st2
             in case cr of
                  Some e \<Rightarrow> (ReturnErr e, emit [LogError False (''Error: '' @ error_text e)] st3)
                | None \<Rightarrow>
                    stage (cmdBackup g) OpBackup (performDuplicacyBackup en g [])
                      (stage (cmdCopy g) OpCopy (performDuplicacyCopy en g [])
                        (stage (cmdPrune g) OpPrune (performDuplicacyPrune en g [])
                          (stage (cmdCheck g) OpCheck (performDuplicacyCheck en g [])
                            (finish en (now en (events st3))))))
                      (emit [LogMessage True (''Beginning backup on '' @ formatNow en (events st3)),
                             NotifyOfStart] st3)))"
  unfolding performBackup_def stage_def finish_def Let_def by (rule refl)

lemma run_ok_done: "run_ok ds ss r \<Longrightarrow> run_ok (s # ds) ((s, ReturnNil) # ss) r"
  unfolding run_ok_def completed_def
  by (elim disjE conjE exE) (simp, metis (no_types, lifting) Cons_eq_appendI list.simps(9))

lemma run_ok_failed: "r \<noteq> ReturnNil \<Longrightarrow> run_ok (s # ds) [(s, r)] r"
  unfolding run_ok_def completed_def by (intro disjI2 conjI exI[of _ "[]"]) auto

lemma finish_spec: "finish en t0 st = (r, st') \<Longrightarrow> cont_spec keep [NotifySuccess] st r st'"
  unfolding cont_spec_def finish_def Let_def
  by (cases "notifyOfSuccess en
          (events (emit [LogMessage True (''Operations completed in '' @ getTimeDiffString en t0 (now en (events (emit [LoggerPrintln separator] st))))] (emit [LoggerPrintln separator] st)))
          (backupTable (emit [LogMessage True (''Operations completed in '' @ getTimeDiffString en t0 (now en (events (emit [LoggerPrintln separator] st))))] (emit [LoggerPrintln separator] st)))
          (copyTable (emit [LogMessage True (''Operations completed in '' @ getTimeDiffString en t0 (now en (events (emit [LoggerPrintln separator] st))))] (emit [LoggerPrintln separator] st)))")
     (auto simp: emit_def run_ok_def completed_def)

lemma stage_spec:
  assumes runop: "\<And>st r st'. runop st = (r, st') \<Longrightarrow> \<exists>new. runner_spec keep [] st r st' new"
    and cont: "\<And>st r st'. cont st = (r, st') \<Longrightarrow> cont_spec keep ds st r st'"
    and run: "stage flag k runop cont st = (r, st')"
  shows "cont_spec keep ((if flag then [RunOp k] else []) @ ds) st r st'"
proof (cases flag)
  case False
  with run have "cont st = (r, st')" by (simp add: stage_def)
  from cont[OF this] show ?thesis using False by simp
next
  case True
  obtain r1 st1 where r1: "runop st = (r1, st1)" by (cases "runop st")
  from runop[OF r1] have "runner_spec keep [] st r1 st1 new" if "new = drop (length (events st)) (events st1)" for new
    using that by (auto simp: runner_spec_def)
  then obtain new1 where "runner_spec keep [] st r1 st1 new1" by blast
  then have n1: "events st1 = events st @ new1" "steps new1 = []"
      "keep \<longrightarrow> backupTable st1 = backupTable st" "r1 \<noteq> Panicked"
    by (simp_all add: runner_spec_def)
  show ?thesis
  proof (cases r1)
    case ReturnNil
    then have "stage flag k runop cont st = cont (emit [Ran k ReturnNil] st1)"
      using True r1 by (simp add: stage_def ran_def)
    with run have "cont (emit [Ran k ReturnNil] st1) = (r, st')" by simp
    from cont[OF this] obtain new2 where n2: "events st' = events (emit [Ran k ReturnNil] st1) @ new2"
        "keep \<longrightarrow> backupTable st' = backupTable (emit [Ran k ReturnNil] st1)" "r \<noteq> Panicked" "run_ok ds (steps new2) r"
      unfolding cont_spec_def by blast
    have a: "events st' = events st @ (new1 @ [Ran k ReturnNil] @ new2)"
      using n1(1) n2(1) by (simp add: emit_def)
    have b: "steps (new1 @ [Ran k ReturnNil] @ new2) = (RunOp k, ReturnNil) # steps new2"
      using n1(2) by (simp add: steps_append)
    have c: "keep \<longrightarrow> backupTable st' = backupTable st" using n1(3) n2(2) by (simp add: emit_def)
    have d: "run_ok (RunOp k # ds) ((RunOp k, ReturnNil) # steps new2) r"
      using n2(4) by (rule run_ok_done)
    have "cont_spec keep (RunOp k # ds) st r st'"
      unfolding cont_spec_def using a b c d n2(3) by metis
    then show ?thesis using True by simp
  next
    case (ReturnErr e)
    then have eq: "stage flag k runop cont st = (ReturnErr e, emit [Ran k (ReturnErr e)] st1)"
      using True r1 by (simp add: stage_def ran_def)
    have res: "r = ReturnErr e" "st' = emit [Ran k (ReturnErr e)] st1"
      using run unfolding eq by auto
    have a: "events st' = events st @ (new1 @ [Ran k (ReturnErr e)])" using res(2) n1(1) by (simp add: emit_def)
    have b: "steps (new1 @ [Ran k (ReturnErr e)]) = [(RunOp k, ReturnErr e)]" using n1(2) by (simp add: steps_append)
    have c: "keep \<longrightarrow> backupTable st' = backupTable st" using res(2) n1(3) by (simp add: emit_def)
    have d: "run_ok (RunOp k # ds) [(RunOp k, ReturnErr e)] (ReturnErr e)"
      by (rule run_ok_failed) simp
    have "cont_spec keep (RunOp k # ds) st (ReturnErr e) st'"
      unfolding cont_spec_def using a b c d by (metis result.distinct(5))
    then show ?thesis using True res(1) by simp
  next
    case Panicked
    with n1(4) show ?thesis by simp
  qed
qed

lemma copy_runner: "performDuplicacyCopy en g [] st = (r, st') \<Longrightarrow> \<exists>new. runner_spec True [] st r st' new"
  unfolding performDuplicacyCopy_def by (rule copy_loop_trace)

lemma prune_runner: "performDuplicacyPrune en g [] st = (r, st') \<Longrightarrow> \<exists>new. runner_spec True [] st r st' new"
  unfolding performDuplicacyPrune_def by (rule prune_loop_trace)

lemma check_runner: "performDuplicacyCheck en g [] st = (r, st') \<Longrightarrow> \<exists>new. runner_spec True [] st r st' new"
  unfolding performDuplicacyCheck_def by (rule check_loop_trace)

lemma backup_runner: "performDuplicacyBackup en g [] st = (r, st') \<Longrightarrow> \<exists>new rows. backup_loop_spec [] (BackupInfo (configFile g)) st r st' new rows"
  unfolding performDuplicacyBackup_def by (rule backup_loop_trace)

lemma from_copy_spec:
  assumes "stage (cmdCopy g) OpCopy (performDuplicacyCopy en g [])
             (stage (cmdPrune g) OpPrune (performDuplicacyPrune en g [])
               (stage (cmdCheck g) OpCheck (performDuplicacyCheck en g []) (finish en t0))) st = (r, st')"
  shows "cont_spec True (after_backup g) st r st'"
proof -
  let ?fin = "finish en t0"
  let ?chk = "stage (cmdCheck g) OpCheck (performDuplicacyCheck en g []) ?fin"
  let ?pru = "stage (cmdPrune g) OpPrune (performDuplicacyPrune en g []) ?chk"
  let ?d1 = "[NotifySuccess]"
  let ?d2 = "(if cmdCheck g then [RunOp OpCheck] else []) @ ?d1"
  let ?d3 = "(if cmdPrune g then [RunOp OpPrune] else []) @ ?d2"
  have c0: "cont_spec True ?d1 st r st'" if "?fin st = (r, st')" for st r st'
    using that by (rule finish_spec)
  have c1: "cont_spec True ?d2 st r st'" if "?chk st = (r, st')" for st r st'
    using stage_spec[where keep=True and runop="performDuplicacyCheck en g []" and cont="?fin" and ds="?d1"
        and flag="cmdCheck g" and k=OpCheck and st=st and r=r and st'=st'] check_runner c0 that
    by blast
  have c2: "cont_spec True ?d3 st r st'" if "?pru st = (r, st')" for st r st'
    using stage_spec[where keep=True and runop="performDuplicacyPrune en g []" and cont="?chk" and ds="?d2"
        and flag="cmdPrune g" and k=OpPrune and st=st and r=r and st'=st'] prune_runner c1 that
    by blast
  show ?thesis
    unfolding after_backup_def
    using stage_spec[where keep=True and runop="performDuplicacyCopy en g []" and cont="?pru" and ds="?d3"
        and flag="cmdCopy g" and k=OpCopy and st=st and r=r and st'=st'] copy_runner c2 assms
    by blast
qed




lemma performBackup_rotate_fails:
  assumes "rotateLogFiles en (events st @ [LogMessage False ''Rotating log files'']) = Some e"
  shows "performBackup en g st =
           (ReturnErr e, emit [LogMessage False ''Rotating log files'', RotateLogFiles (Some e)] st)"
  using assms by (simp add: performBackup_unfold Let_def emit_def)

lemma performBackup_create_fails:
  assumes "rotateLogFiles en (events st @ [LogMessage False ''Rotating log files'']) = None"
    and "osCreate en (events st @ [LogMessage False ''Rotating log files'', RotateLogFiles None])
           (globalLogDir g) (cmdConfig g @ ''.log'') = Some e"
  shows "performBackup en g st =
           (ReturnErr e, emit [LogMessage False ''Rotating log files'', RotateLogFiles None,
                               OsCreate (globalLogDir g) (cmdConfig g @ ''.log'') (Some e),
                               LogError False (''Error: '' @ error_text e)] st)"
  using assms by (simp add: performBackup_unfold Let_def emit_def)

lemma performBackup_runs:
  assumes "rotateLogFiles en (events st @ [LogMessage False ''Rotating log files'']) = None"
    and "osCreate en (events st @ [LogMessage False ''Rotating log files'', RotateLogFiles None])
           (globalLogDir g) (cmdConfig g @ ''.log'') = None"
  shows "performBackup en g st =
           stage (cmdBackup g) OpBackup (performDuplicacyBackup en g [])
             (stage (cmdCopy g) OpCopy (performDuplicacyCopy en g [])
               (stage (cmdPrune g) OpPrune (performDuplicacyPrune en g [])
                 (stage (cmdCheck g) OpCheck (performDuplicacyCheck en g [])
                   (finish en (now en (events st @ [LogMessage False ''Rotating log files'',
                      RotateLogFiles None, OsCreate (globalLogDir g) (cmdConfig g @ ''.log'') None]))))))
             (emit (prologue en g st) st)"
  using assms by (simp add: performBackup_unfold Let_def emit_def prologue_def)

lemma steps_prologue: "steps (prologue en g st) = [(RotateLogs, ReturnNil), (NotifyStart, ReturnNil)]"
  by (simp add: prologue_def)

lemma exec_results_prologue: "exec_results (prologue en g st) = []"
  by (simp add: prologue_def)

lemma exec_args_prologue: "exec_args (prologue en g st) = []"
  by (simp add: prologue_def)


section \<open>Failure and success of the backup runner\<close>

lemma new_events_append: "events st' = events st @ new \<Longrightarrow> new_events st st' = new"
  by (simp add: new_events_def)

lemma backup_run_facts:
  assumes "performDuplicacyBackup en g testArgs st = (r, st')"
  shows "\<exists>rows. backup_loop_spec testArgs (BackupInfo (configFile g)) st r st' (new_events st st') rows"
proof -
  from assms obtain new rows where s: "backup_loop_spec testArgs (BackupInfo (configFile g)) st r st' new rows"
    unfolding performDuplicacyBackup_def by (blast dest: backup_loop_trace)
  then have "new_events st st' = new" by (simp add: backup_loop_spec_def new_events_append)
  with s show ?thesis by blast
qed

lemma nth_replicate_snoc:
  "k < length (replicate m None @ ys) \<Longrightarrow> (replicate m None @ ys) ! k = Some e \<Longrightarrow> length ys \<le> 1
     \<Longrightarrow> k = m \<and> ys = [Some e]"
  by (cases ys) (auto simp: nth_append split: if_splits)

lemma backup_failure_runner:
  assumes run: "performDuplicacyBackup en g testArgs st = (r, st')"
    and k: "k < length (exec_results (new_events st st'))"
    and fail: "exec_results (new_events st st') ! k = Some e"
  shows "r = ReturnErr e \<and> (\<exists>rows. backupTable st' = backupTable st @ rows \<and> length rows = k)
         \<and> length (exec_results (new_events st st')) = Suc k
         \<and> k < length (BackupInfo (configFile g))"
proof -
  from backup_run_facts[OF run] obtain rows where
    s: "backup_loop_spec testArgs (BackupInfo (configFile g)) st r st' (new_events st st') rows" by blast
  let ?tl = "case r of ReturnErr err \<Rightarrow> [Some err] | _ \<Rightarrow> []"
  have res: "exec_results (new_events st st') = replicate (length rows) None @ ?tl"
    using s by (simp add: backup_loop_spec_def)
  have "length ?tl \<le> 1" by (cases r) auto
  with k fail res have km: "k = length rows" and tl: "?tl = [Some e]"
    using nth_replicate_snoc[of k "length rows" ?tl e] by auto
  from tl have r: "r = ReturnErr e" by (cases r) auto
  have "backupTable st' = backupTable st @ rows" "length rows < length (BackupInfo (configFile g))"
    using s r by (simp_all add: backup_loop_spec_def)
  then show ?thesis using r km res tl by auto
qed

lemma backup_failure_orchestrator:
  assumes run: "performBackup en g st = (r, st')"
    and flag: "cmdBackup g"
    and kN: "k < length (BackupInfo (configFile g))"
    and k: "k < length (exec_results (new_events st st'))"
    and fail: "exec_results (new_events st st') ! k = Some e"
  shows "r = ReturnErr e \<and> (\<exists>rows. backupTable st' = backupTable st @ rows \<and> length rows = k)
         \<and> exec_args (new_events st st') = map (backup_cmdArgs []) (take (Suc k) (BackupInfo (configFile g)))
         \<and> steps (new_events st st') =
              [(RotateLogs, ReturnNil), (NotifyStart, ReturnNil), (RunOp OpBackup, ReturnErr e)]"
proof (cases "rotateLogFiles en (events st @ [LogMessage False ''Rotating log files''])")
  case (Some e')
  from run performBackup_rotate_fails[OF Some, of g]
  have "new_events st st' = [LogMessage False ''Rotating log files'', RotateLogFiles (Some e')]"
    by (auto simp: emit_def new_events_def)
  with k show ?thesis by simp
next
  case None
  show ?thesis
  proof (cases "osCreate en (events st @ [LogMessage False ''Rotating log files'', RotateLogFiles None])
           (globalLogDir g) (cmdConfig g @ ''.log'')")
    case (Some e')
    from run performBackup_create_fails[OF None Some]
    have "new_events st st' = [LogMessage False ''Rotating log files'', RotateLogFiles None,
                               OsCreate (globalLogDir g) (cmdConfig g @ ''.log'') (Some e'),
                               LogError False (''Error: '' @ error_text e')]"
      by (auto simp: emit_def new_events_def)
    with k show ?thesis by simp
  next
    case cr: None
    define t0 where "t0 = now en (events st @ [LogMessage False ''Rotating log files'',
                      RotateLogFiles None, OsCreate (globalLogDir g) (cmdConfig g @ ''.log'') None])"
    define st4 where "st4 = emit (prologue en g st) st"
    let ?cont = "stage (cmdCopy g) OpCopy (performDuplicacyCopy en g [])
               (stage (cmdPrune g) OpPrune (performDuplicacyPrune en g [])
                 (stage (cmdCheck g) OpCheck (performDuplicacyCheck en g [])
                   (finish en t0)))"
    from performBackup_runs[OF None cr] run have
      stg: "stage True OpBackup (performDuplicacyBackup en g []) ?cont st4 = (r, st')"
      using flag by (simp add: t0_def st4_def)
    have ev4: "events st4 = events st @ prologue en g st" "backupTable st4 = backupTable st"
      by (simp_all add: st4_def emit_def)
    obtain rb stb where rb: "performDuplicacyBackup en g [] st4 = (rb, stb)"
      by (cases "performDuplicacyBackup en g [] st4")
    from backup_runner[OF rb] obtain nb rows where
      s: "backup_loop_spec [] (BackupInfo (configFile g)) st4 rb stb nb rows" by blast
    then have sb: "events stb = events st4 @ nb" "steps nb = []" "backupTable stb = backupTable st4 @ rows"
        "exec_results nb = replicate (length rows) None @ (case rb of ReturnErr err \<Rightarrow> [Some err] | _ \<Rightarrow> [])"
        "rb = ReturnNil \<longrightarrow> length rows = length (BackupInfo (configFile g))"
        "rb \<noteq> ReturnNil \<longrightarrow> length rows < length (BackupInfo (configFile g))"
        "rb \<noteq> Panicked"
        "exec_args nb = map (backup_cmdArgs []) (take (length (exec_results nb)) (BackupInfo (configFile g)))"
      by (simp_all add: backup_loop_spec_def)
    show ?thesis
    proof (cases rb)
      case ReturnNil
      then have "stage True OpBackup (performDuplicacyBackup en g []) ?cont st4
                   = ?cont (emit [Ran OpBackup ReturnNil] stb)"
        using rb by (simp add: stage_def ran_def)
      with stg have "?cont (emit [Ran OpBackup ReturnNil] stb) = (r, st')" by simp
      from from_copy_spec[OF this] obtain more where
        "events st' = events (emit [Ran OpBackup ReturnNil] stb) @ more"
        unfolding cont_spec_def by blast
      then have "events st' = events st @ (prologue en g st @ nb @ [Ran OpBackup ReturnNil] @ more)"
        using sb(1) ev4(1) by (simp add: emit_def)
      then have "new_events st st' = prologue en g st @ nb @ [Ran OpBackup ReturnNil] @ more"
        by (rule new_events_append)
      then have "exec_results (new_events st st') =
          replicate (length (BackupInfo (configFile g))) None @ exec_results more"
        using sb(4,5) ReturnNil by (simp add: exec_results_append exec_results_prologue)
      with kN fail have False by (simp add: nth_append)
      then show ?thesis ..
    next
      case (ReturnErr e')
      then have eq: "stage True OpBackup (performDuplicacyBackup en g []) ?cont st4
                   = (ReturnErr e', emit [Ran OpBackup (ReturnErr e')] stb)"
        using rb by (simp add: stage_def ran_def)
      have res: "r = ReturnErr e'" "st' = emit [Ran OpBackup (ReturnErr e')] stb"
        using stg unfolding eq by auto
      have "events st' = events st @ (prologue en g st @ nb @ [Ran OpBackup (ReturnErr e')])"
        using res(2) sb(1) ev4(1) by (simp add: emit_def)
      then have ne: "new_events st st' = prologue en g st @ nb @ [Ran OpBackup (ReturnErr e')]"
        by (rule new_events_append)
      have xr: "exec_results (new_events st st') = replicate (length rows) None @ [Some e']"
        using sb(4) ReturnErr by (simp add: ne exec_results_append exec_results_prologue)
      with k fail have km: "k = length rows" and ee: "e' = e"
        using nth_replicate_snoc[of k "length rows" "[Some e']" e] by auto
      have xa: "exec_args (new_events st st') = map (backup_cmdArgs []) (take (Suc k) (BackupInfo (configFile g)))"
        using sb(8) sb(4) ReturnErr km by (simp add: ne exec_args_append exec_args_prologue)
      have xs: "steps (new_events st st') =
              [(RotateLogs, ReturnNil), (NotifyStart, ReturnNil), (RunOp OpBackup, ReturnErr e)]"
        using sb(2) ee by (simp add: ne steps_append steps_prologue)
      have tb: "backupTable st' = backupTable st @ rows"
        using res(2) sb(3) ev4(2) by (simp add: emit_def)
      show ?thesis using res(1) ee tb km xa xs by blast
    next
      case Panicked
      with sb(7) show ?thesis by simp
    qed
  qed
qed

section \<open>The order of the steps\<close>






















lemma backupLogger_unrecognized:
  assumes "\<not> HasPrefix line ''Files:''" "\<not> HasPrefix line ''All chunks:''"
    and "\<not> HasPrefix line ''Enter storage password:''" "\<not> HasSuffix line ''Authorization failure''"
  shows "backupLogger line (backupEntry, ev) = (backupEntry, ev @ [LoggerPrintln line])"
  using assms by (simp add: backupLogger_def)

lemma copyLogger_unrecognized:
  "\<not> HasPrefix line ''Copy complete, '' \<Longrightarrow> copyLogger line (copyEntry, ev) = (copyEntry, ev @ [LoggerPrintln line])"
  by (simp add: copyLogger_def)

section \<open>The loaded prune targets\<close>

lemma Split_not_Nil: "Split sep s \<noteq> []"
  by (induction s) (auto split: list.splits)

lemma validate_prune_map: "snd (validate_prune j ps err) = map normalize_prune ps"
  by (induction ps arbitrary: j err) (simp_all add: normalize_prune_def Let_def case_prod_beta)

lemma loadConfig_PruneInfo:
  "loadConfig (Document doc) statRepo config = (err, config')
     \<Longrightarrow> PruneInfo config' = map normalize_prune (PruneInfo (UnmarshalYAML config doc))"
  by (auto simp: loadConfig_def Let_def case_prod_beta validate_prune_map)

lemma UnmarshalYAML_PruneInfo:
  "prune_y doc = Some ps \<Longrightarrow> PruneInfo (UnmarshalYAML config doc) = map decode_prune ps"
  by (simp add: UnmarshalYAML_def unmarshal_plain_def or_else_def)



lemma prune_all_from_fresh_config:
  assumes "loadConfig (Document doc) statRepo (setConfig newConfigurationFile f) = (err, config')"
    and "prune_y doc = Some ps" and "i < length ps"
  shows "All_p (PruneInfo config' ! i) = or_else (all_py (ps ! i)) False"
proof -
  have "PruneInfo config' = map normalize_prune (map decode_prune ps)"
    using loadConfig_PruneInfo[OF assms(1)] UnmarshalYAML_PruneInfo[OF assms(2)] by simp
  then show ?thesis using assms(3) by (simp add: normalize_prune_def Let_def decode_prune_def)
qed

section \<open>Evaluated runs\<close>

lemmas eval_defs =
  performBackup_def ran_def
  performDuplicacyBackup_def backup_target_def backup_cmdArgs_def backup_vssFlags_def
  performDuplicacyCopy_def copy_target_def copy_cmdArgs_def
  performDuplicacyPrune_def performDuplicacyCheck_def
  quiet_env_def globals_of_def target_def empty_state_def test_cmdArgs_def
  emit_def Let_def new_events_def zero_backupRevision_def zero_copyRevision_def

lemma run_fail_second:
  "exec_results (new_events empty_state
      (snd (performDuplicacyBackup (quiet_env fail_second) three_targets [] empty_state)))
   = [None, Some (Error ''exit status 100'')]"
  by (simp add: eval_defs three_targets_def fail_second_def backupLogger_def HasPrefix_def HasSuffix_def
        suffix_to_prefix)

lemma whole_run_fail_second:
  "exec_results (new_events empty_state
      (snd (performBackup (quiet_env fail_second) three_targets empty_state)))
   = [None, Some (Error ''exit status 100'')]"
  by (simp add: eval_defs three_targets_def fail_second_def backupLogger_def HasPrefix_def HasSuffix_def
        suffix_to_prefix)

lemma run_two_targets:
  "exec_results (new_events empty_state
      (snd (performDuplicacyBackup (quiet_env files_once) two_targets [] empty_state)))
   = [None, None]"
  by (simp add: eval_defs two_targets_def files_once_def backupLogger_def HasPrefix_def
        FindStringSubmatch.simps files_re_def)


lemma load_doc_no_all:
  "loadConfig (Document doc_no_all) (\<lambda>dir. None) (setConfig newConfigurationFile ''test.yaml'')
     = (None, loaded_no_all)"
  by (simp add: loadConfig_def doc_no_all_def UnmarshalYAML_def unmarshal_plain_def defaults_Set_def
        newConfigurationFile_def setConfig_def decode_storage_def decode_copy_def decode_prune_def
        decode_check_def or_else_def expand_keep_def Let_def loaded_no_all_def)

lemma prune_run_loaded_no_all:
  "exec_args (events (snd (performDuplicacyPrune (quiet_env files_once) (globals_with loaded_no_all) []
      empty_state)))
   = [[''prune'', ''-storage'', ''b2'', ''-keep'', ''7'', ''-keep'', ''30'', ''-keep'', ''365'',
       ''-threads'', ''1'']]"
  by (simp add: eval_defs prune_target_def prune_cmdArgs_def anon_def globals_with_def
        loaded_no_all_def files_once_def)

lemma quote_is_last_with_space:
  "Quote b \<noteq> [] \<Longrightarrow> last (backup_cmdArgs args b) = '' '' @ Quote b"
  "Quote_c c \<noteq> [] \<Longrightarrow> last (copy_cmdArgs args c) = '' '' @ Quote_c c"
  by (simp_all add: backup_cmdArgs_def copy_cmdArgs_def)




section \<open>The claims\<close>

text \<open>
  Claim C1. Let the invocation for backup target \<open>k + 1\<close> fail: the executor call number
  \<open>k + 1\<close> of the run returns the error \<open>e\<close>. Then \<open>performDuplicacyBackup\<close> returns
  \<open>e\<close> unchanged, the backup table has gained exactly \<open>k\<close> entries, and the executor
  was called \<open>k + 1\<close> times and no more, so the later targets were never invoked. When the
  runner is called from \<open>performBackup\<close> with backup requested, \<open>performBackup\<close> returns
  \<open>e\<close> as well, the executor was called with the argument lists of the first \<open>k + 1\<close>
  backup targets and nothing else, and the steps of the run are log rotation, start
  notification and the failed backup: no copy, prune or check ran and no success
  notification was sent.
\<close>

theorem backup_failure_aborts_run:
  "(performDuplicacyBackup en g testArgs st = (r, st')
      \<and> k < length (exec_results (new_events st st'))
      \<and> exec_results (new_events st st') ! k = Some e
    \<longrightarrow> r = ReturnErr e
        \<and> (\<exists>rows. backupTable st' = backupTable st @ rows \<and> length rows = k)
        \<and> length (exec_results (new_events st st')) = Suc k
        \<and> k < length (BackupInfo (configFile g)))
   \<and> (performBackup en g st = (r, st') \<and> cmdBackup g
      \<and> k < length (BackupInfo (configFile g))
      \<and> k < length (exec_results (new_events st st'))
      \<and> exec_results (new_events st st') ! k = Some e
    \<longrightarrow> r = ReturnErr e
        \<and> (\<exists>rows. backupTable st' = backupTable st @ rows \<and> length rows = k)
        \<and> exec_args (new_events st st') = map (backup_cmdArgs []) (take (Suc k) (BackupInfo (configFile g)))
        \<and> steps (new_events st st') =
              [(RotateLogs, ReturnNil), (NotifyStart, ReturnNil), (RunOp OpBackup, ReturnErr e)])"
  using backup_failure_runner[of en g testArgs st r st' k e]
        backup_failure_orchestrator[of en g st r st' k e]
  by blast

theorem backup_failure_aborts_run_witness:
  "exec_results (new_events empty_state
      (snd (performDuplicacyBackup (quiet_env fail_second) three_targets [] empty_state))) ! 1
     = Some (Error ''exit status 100'')
   \<and> fst (performDuplicacyBackup (quiet_env fail_second) three_targets [] empty_state)
       = ReturnErr (Error ''exit status 100'')
   \<and> length (backupTable (snd (performDuplicacyBackup (quiet_env fail_second) three_targets [] empty_state))) = 1
   \<and> exec_results (new_events empty_state
        (snd (performBackup (quiet_env fail_second) three_targets empty_state))) ! 1
     = Some (Error ''exit status 100'')
   \<and> fst (performBackup (quiet_env fail_second) three_targets empty_state)
       = ReturnErr (Error ''exit status 100'')
   \<and> length (backupTable (snd (performBackup (quiet_env fail_second) three_targets empty_state))) = 1
   \<and> exec_args (new_events empty_state
        (snd (performBackup (quiet_env fail_second) three_targets empty_state)))
       = [backup_cmdArgs [] (target ''first''), backup_cmdArgs [] (target ''second'')]"
proof -
  have g: "cmdBackup three_targets" "length (BackupInfo (configFile three_targets)) = 3"
    "BackupInfo (configFile three_targets) = [target ''first'', target ''second'', target ''third'']"
    "backupTable empty_state = []"
    by (simp_all add: three_targets_def globals_of_def empty_state_def)
  show ?thesis
    using backup_failure_aborts_run[of "quiet_env fail_second" three_targets "[]" empty_state
            "fst (performDuplicacyBackup (quiet_env fail_second) three_targets [] empty_state)"
            "snd (performDuplicacyBackup (quiet_env fail_second) three_targets [] empty_state)"
            1 "Error ''exit status 100''"]
          backup_failure_aborts_run[of "quiet_env fail_second" three_targets "[]" empty_state
            "fst (performBackup (quiet_env fail_second) three_targets empty_state)"
            "snd (performBackup (quiet_env fail_second) three_targets empty_state)"
            1 "Error ''exit status 100''"]
    by (auto simp: run_fail_second whole_run_fail_second g)
qed

text \<open>
  Claim C2. When every invocation of a run of \<open>performDuplicacyBackup\<close> succeeds, the
  runner returns nil, it has called the executor once per configured target, and it has
  appended one entry per target to the backup table, in the order of the configuration,
  each with the storage name of its target. (\<open>testArgs\<close> is the hook of the unit tests;
  \<open>performBackup\<close> passes the empty list. The one list excluded is the one on which the
  loop panics before its first invocation.)
\<close>

theorem backup_table_complete:
  assumes run: "performDuplicacyBackup en g testArgs st = (r, st')"
    and np: "testArgs \<noteq> [''testbackup'']"
    and ok: "\<forall>x \<in> set (exec_results (new_events st st')). x = None"
  shows "r = ReturnNil
         \<and> (\<exists>rows. backupTable st' = backupTable st @ rows
                \<and> length rows = length (BackupInfo (configFile g))
                \<and> map storage rows = map Name (BackupInfo (configFile g)))
         \<and> length (exec_results (new_events st st')) = length (BackupInfo (configFile g))"
proof -
  from backup_run_facts[OF run] obtain rows where
    s: "backup_loop_spec testArgs (BackupInfo (configFile g)) st r st' (new_events st st') rows" by blast
  have r: "r = ReturnNil"
  proof (cases r)
    case ReturnNil
    then show ?thesis .
  next
    case (ReturnErr e)
    with s have "Some e \<in> set (exec_results (new_events st st'))"
      by (simp add: backup_loop_spec_def)
    with ok show ?thesis by auto
  next
    case Panicked
    with s np show ?thesis by (simp add: backup_loop_spec_def)
  qed
  with s show ?thesis by (auto simp: backup_loop_spec_def)
qed

theorem backup_table_complete_witness:
  "[] \<noteq> [''testbackup'']
   \<and> exec_results (new_events empty_state
          (snd (performDuplicacyBackup (quiet_env files_once) two_targets [] empty_state)))
       = [None, None]
   \<and> fst (performDuplicacyBackup (quiet_env files_once) two_targets [] empty_state) = ReturnNil
   \<and> map storage (backupTable (snd (performDuplicacyBackup (quiet_env files_once) two_targets [] empty_state)))
       = [''first'', ''second'']"
proof -
  have g: "map Name (BackupInfo (configFile two_targets)) = [''first'', ''second'']"
    "backupTable empty_state = []"
    by (simp_all add: two_targets_def globals_of_def empty_state_def target_def)
  show ?thesis
    using backup_table_complete[of "quiet_env files_once" two_targets "[]" empty_state
            "fst (performDuplicacyBackup (quiet_env files_once) two_targets [] empty_state)"
            "snd (performDuplicacyBackup (quiet_env files_once) two_targets [] empty_state)"]
    by (auto simp: run_two_targets g)
qed

text \<open>
  Claim C3 says that a field whose line was not seen during a target's run stays empty in
  the entry appended for that target, whatever the earlier targets did. The source declares
  \<open>backupEntry\<close> once, before the loop, and never clears it. With two targets, of which
  only the first prints a \<open>Files:\<close> line, the entry appended for the second target
  carries the file counts of the first.
\<close>

theorem stale_fields_carried_over:
  "map (\<lambda>e. (storage e, filesTotalCount e, filesNewSize e))
     (backupTable (snd (performDuplicacyBackup (quiet_env files_once)
         (globals_of [target ''first'', target ''second''] []) [] empty_state)))
   = [(''first'', ''1'', ''4''), (''second'', ''1'', ''4'')]"
  by (simp add: performDuplicacyBackup_def backup_target_def quiet_env_def files_once_def
        globals_of_def target_def empty_state_def test_cmdArgs_def backup_cmdArgs_def
        backup_vssFlags_def emit_def Let_def backupLogger_def HasPrefix_def
        FindStringSubmatch.simps files_re_def zero_backupRevision_def)

text \<open>
  Claim C4. For a line \<open>Files: a total, b bytes; c new, d bytes\<close> with tokens
  \<open>a\<close>, \<open>b\<close>, \<open>c\<close>, \<open>d\<close>, the sink sets \<open>filesTotalCount\<close>,
  \<open>filesTotalSize\<close>, \<open>filesNewCount\<close> and \<open>filesNewSize\<close> to the four tokens as
  they are, changes no other field, and logs the line.
\<close>

theorem files_line_sets_four_fields:
  assumes "token a" "token b" "token c" "token d"
    and "line = ''Files: '' @ a @ '' total, '' @ b @ '' bytes; '' @ c @ '' new, '' @ d @ '' bytes''"
  shows "backupLogger line (backupEntry, ev) =
           (backupEntry\<lparr>filesTotalCount := a, filesTotalSize := b, filesNewCount := c, filesNewSize := d\<rparr>,
            ev @ [LoggerPrintln line, LogMessage True (''  '' @ line)])"
proof -
  from files_line_elements[OF assms(1-4)] obtain w where
    w: "FindStringSubmatch files_re line = [w, a, b, c, d]" unfolding assms(5) by blast
  have "HasPrefix line ''Files:''" by (simp add: assms(5) HasPrefix_def)
  then show ?thesis by (simp add: backupLogger_def w)
qed

theorem files_line_sets_four_fields_witness:
  "token ''161318'' \<and> token ''1666G'' \<and> token ''373'' \<and> token ''15,951M''
   \<and> backupLogger ''Files: 161318 total, 1666G bytes; 373 new, 15,951M bytes'' (zero_backupRevision, [])
       = (zero_backupRevision\<lparr>filesTotalCount := ''161318'', filesTotalSize := ''1666G'',
                               filesNewCount := ''373'', filesNewSize := ''15,951M''\<rparr>,
          [LoggerPrintln ''Files: 161318 total, 1666G bytes; 373 new, 15,951M bytes'',
           LogMessage True ''  Files: 161318 total, 1666G bytes; 373 new, 15,951M bytes''])"
  using files_line_sets_four_fields[of "''161318''" "''1666G''" "''373''" "''15,951M''"
          "''Files: 161318 total, 1666G bytes; 373 new, 15,951M bytes''" zero_backupRevision "[]"]
  by (simp add: token_def)





text \<open>
  Claim C7, amended. The claim names the prefixes of the backup sink, and for that sink it
  holds: a line that does not begin with \<open>Files:\<close>, \<open>All chunks:\<close> or
  \<open>Enter storage password:\<close> and does not end with \<open>Authorization failure\<close> leaves the
  record as it is, and the only event is the line written to the log. The copy sink has a
  prefix of its own: it leaves its record as it is, and only logs the line, for every line
  that does not begin with \<open>Copy complete, \<close>.
\<close>

theorem unrecognized_line_leaves_record:
  "(\<not> HasPrefix line ''Files:'' \<and> \<not> HasPrefix line ''All chunks:''
      \<and> \<not> HasPrefix line ''Enter storage password:'' \<and> \<not> HasSuffix line ''Authorization failure''
    \<longrightarrow> backupLogger line (backupEntry, ev) = (backupEntry, ev @ [LoggerPrintln line]))
   \<and> (\<not> HasPrefix line ''Copy complete, ''
    \<longrightarrow> copyLogger line (copyEntry, ev') = (copyEntry, ev' @ [LoggerPrintln line]))"
  using backupLogger_unrecognized[of line backupEntry ev] copyLogger_unrecognized[of line copyEntry ev']
  by blast

theorem unrecognized_line_leaves_record_witness:
  "\<not> HasPrefix ''Storage set to /backup'' ''Files:''
   \<and> \<not> HasPrefix ''Storage set to /backup'' ''All chunks:''
   \<and> \<not> HasPrefix ''Storage set to /backup'' ''Enter storage password:''
   \<and> \<not> HasSuffix ''Storage set to /backup'' ''Authorization failure''
   \<and> \<not> HasPrefix ''Storage set to /backup'' ''Copy complete, ''
   \<and> backupLogger ''Storage set to /backup'' (zero_backupRevision, [])
       = (zero_backupRevision, [LoggerPrintln ''Storage set to /backup''])
   \<and> copyLogger ''Storage set to /backup'' (zero_copyRevision, [])
       = (zero_copyRevision, [LoggerPrintln ''Storage set to /backup''])"
  using unrecognized_line_leaves_record[of "''Storage set to /backup''" zero_backupRevision "[]"
          zero_copyRevision "[]"]
  by (simp add: HasPrefix_def HasSuffix_def suffix_to_prefix)

text \<open>
  The claim as stated fails for the copy sink: a copy summary line begins with none of the
  three prefixes and does not end with \<open>Authorization failure\<close>, yet the copy sink sets
  three fields of its record and logs the line twice.
\<close>

theorem copy_complete_line_counterexample:
  "\<not> HasPrefix ''Copy complete, 1 total chunks, 2 chunks copied, 3 skipped'' ''Files:''
   \<and> \<not> HasPrefix ''Copy complete, 1 total chunks, 2 chunks copied, 3 skipped'' ''All chunks:''
   \<and> \<not> HasPrefix ''Copy complete, 1 total chunks, 2 chunks copied, 3 skipped'' ''Enter storage password:''
   \<and> \<not> HasSuffix ''Copy complete, 1 total chunks, 2 chunks copied, 3 skipped'' ''Authorization failure''
   \<and> copyLogger ''Copy complete, 1 total chunks, 2 chunks copied, 3 skipped'' (zero_copyRevision, [])
       = (zero_copyRevision\<lparr>chunkTotalCount_c := ''1'', chunkCopyCount := ''2'', chunkSkipCount := ''3''\<rparr>,
          [LoggerPrintln ''Copy complete, 1 total chunks, 2 chunks copied, 3 skipped'',
           LogMessage True ''  Copy complete, 1 total chunks, 2 chunks copied, 3 skipped''])
   \<and> copyLogger ''Copy complete, 1 total chunks, 2 chunks copied, 3 skipped'' (zero_copyRevision, [])
       \<noteq> (zero_copyRevision, [LoggerPrintln ''Copy complete, 1 total chunks, 2 chunks copied, 3 skipped''])"
  by (simp add: HasPrefix_def HasSuffix_def suffix_to_prefix copyLogger_def
        FindStringSubmatch.simps copy_re_def zero_copyRevision_def)

text \<open>
  Claim C8. For every line, giving it to the sink twice leaves the record with the same
  field values as giving it once; for the backup sink and for the copy sink.
\<close>

theorem observe_idempotent:
  "fst (backupLogger line (backupLogger line (backupEntry, ev))) = fst (backupLogger line (backupEntry, ev))
   \<and> fst (copyLogger line (copyLogger line (copyEntry, ev'))) = fst (copyLogger line (copyEntry, ev'))"
  by (simp add: backupLogger_def copyLogger_def Let_def)

text \<open>
  Claim C9 says that a passthrough quote string ends the argument list verbatim. The source
  appends \<open>" " + Quote\<close>: the last argument is the quote string with a space in front. For
  a backup target with quote \<open>-limit-rate 100\<close> and a copy target with quote
  \<open>-bit-identical\<close> the executor receives these argument lists. (Lemma
  \<open>quote_is_last_with_space\<close> is the general fact.)
\<close>

theorem quote_argument_has_leading_space:
  "exec_args (events (snd (performDuplicacyBackup (quiet_env files_once) quoted_targets [] empty_state)))
     = [[''backup'', ''-storage'', ''b2'', ''-stats'', ''-threads'', ''1'', '' -limit-rate 100'']]
   \<and> exec_args (events (snd (performDuplicacyCopy (quiet_env files_once) quoted_targets [] empty_state)))
     = [[''copy'', ''-from'', ''b2'', ''-to'', ''s3'', ''-threads'', ''1'', '' -bit-identical'']]"
  by (simp add: eval_defs quoted_targets_def files_once_def)

text \<open>
  Claim C10 says that a prune target that omits \<open>all\<close> is loaded with the flag set, so that
  \<open>-all\<close> is passed. \<open>UnmarshalYAML\<close> applies the defaults to the receiver before the
  decoder runs, when the receiver has no prune targets yet; the decoder then makes the
  targets from zero values. The prune target of \<open>doc_no_all\<close> is loaded with the flag
  unset, and the executor is called without \<open>-all\<close>. (Lemma
  \<open>prune_all_from_fresh_config\<close> is the general fact.)
\<close>

theorem prune_all_default_not_applied:
  "prune_y doc_no_all = Some [\<lparr>storage_py = Some ''b2'', keep_py = Some ''7 30 365'', threads_py = None,
                                all_py = None, quote_py = None\<rparr>]
   \<and> loadConfig (Document doc_no_all) (\<lambda>dir. None) (setConfig newConfigurationFile ''test.yaml'')
       = (None, loaded_no_all)
   \<and> map All_p (PruneInfo loaded_no_all) = [False]
   \<and> exec_args (events (snd (performDuplicacyPrune (quiet_env files_once) (globals_with loaded_no_all) []
        empty_state)))
       = [[''prune'', ''-storage'', ''b2'', ''-keep'', ''7'', ''-keep'', ''30'', ''-keep'', ''365'',
           ''-threads'', ''1'']]"
  using load_doc_no_all prune_run_loaded_no_all by (simp add: doc_no_all_def loaded_no_all_def)

end
